theory Spec2Isabelle
  imports Main "HOL-Library.AList" "HOL-Library.Sublist"
begin

section \<open>Common notions\<close>

text \<open>
  The repository holds three record stores with the same menu of operations:
  \<^item> \<^verbatim>\<open>BDA Course Assigment 1/crud.py\<close>: users as XDM records in one Redis hash;
  \<^item> \<^verbatim>\<open>BDA Course Assigment 1/main.py\<close>: files copied into a storage directory, indexed
    by a dictionary held in process memory;
  \<^item> \<^verbatim>\<open>lab3/crud.py\<close>: users as documents of a MongoDB collection.

  What the scripts take from their environment is an argument of the model: a clock reading
  for every call of \<^verbatim>\<open>datetime.utcnow()\<close>, the hexadecimal digits of every
  \<^verbatim>\<open>uuid.uuid4()\<close>, and the state of the file system. A clock reading is a natural number
  (microseconds since some epoch); its rendering by \<^verbatim>\<open>isoformat()\<close> is not modelled.
\<close>

type_synonym timestamp = nat

datatype py_error = IndexError | FileNotFoundError | OSError | DuplicateKeyError

text \<open>
  \<^verbatim>\<open>str.split()\<close> without arguments: the maximal runs of characters that are not white
  space. A character is a code point below 256, and white space is what \<^verbatim>\<open>str.isspace\<close>
  holds of among these: the blank, the ASCII controls 0x09 to 0x0D and 0x1C to 0x1F, the next
  line control 0x85 and the no-break space 0xA0.
\<close>

definition is_space :: "char \<Rightarrow> bool" where
  "is_space c \<longleftrightarrow> c \<in> {CHR '' '', CHR 0x09, CHR 0x0A, CHR 0x0B, CHR 0x0C, CHR 0x0D,
                        CHR 0x1C, CHR 0x1D, CHR 0x1E, CHR 0x1F, CHR 0x85, CHR 0xA0}"

fun split_acc :: "string \<Rightarrow> string \<Rightarrow> string list" where
  "split_acc w [] = (if w = [] then [] else [w])"
| "split_acc w (c # cs) =
     (if is_space c then (if w = [] then split_acc [] cs else w # split_acc [] cs)
      else split_acc (w @ [c]) cs)"

definition py_split :: "string \<Rightarrow> string list" where
  "py_split s = split_acc [] s"

definition py_strip :: "string \<Rightarrow> string" where
  "py_strip s = rev (dropWhile is_space (rev (dropWhile is_space s)))"

section \<open>The Redis-backed store: \<^verbatim>\<open>BDA Course Assigment 1/crud.py\<close>\<close>

subsection \<open>Records\<close>

text \<open>
  The dictionary built by \<^verbatim>\<open>_create_adobe_xdm_record\<close>, one field per leaf:
  \<^verbatim>\<open>"@id"\<close>, \<^verbatim>\<open>xdm:identityMap.email[0].id\<close>, \<^verbatim>\<open>xdm:person.name.firstName\<close>,
  \<^verbatim>\<open>xdm:person.name.lastName\<close>, \<^verbatim>\<open>xdm:person.age\<close>, \<^verbatim>\<open>xdm:person.phone\<close>,
  \<^verbatim>\<open>xdm:person.address.fullAddress\<close> and the three time stamps. The constant
  \<^verbatim>\<open>authenticatedState\<close> is left out. A record is stored as \<^verbatim>\<open>json.dumps\<close> of the
  dictionary and read back with \<^verbatim>\<open>json.loads\<close>; on these dictionaries the two are
  inverse, so the hash holds the records themselves.
\<close>

record xdm_record =
  adobe_id :: string
  identity_email :: string
  firstName :: string
  lastName :: string
  age :: int
  phone :: string
  fullAddress :: string
  xdm_timestamp :: timestamp
  createdAt :: timestamp
  updatedAt :: timestamp

text \<open>The dictionary \<^verbatim>\<open>user_data\<close> that \<^verbatim>\<open>create_user\<close> hands to \<^verbatim>\<open>create\<close>.\<close>

record user_data =
  data_name :: string
  data_email :: string
  data_age :: int
  data_phone :: string
  data_address :: string

text \<open>
  The dictionary \<^verbatim>\<open>update_data\<close>: each key may be present or absent. \<^verbatim>\<open>upd_email\<close> stands
  for a key \<^verbatim>\<open>"email"\<close>, which the menu never sets but a caller of \<^verbatim>\<open>update_user\<close> may.
\<close>

record update_data =
  upd_name :: "string option"
  upd_age :: "int option"
  upd_phone :: "string option"
  upd_address :: "string option"
  upd_email :: "string option"

subsection \<open>The Redis hash\<close>

text \<open>
  One hash, \<^verbatim>\<open>adobe:<namespace>:users\<close>, from field names to values. \<open>entries\<close> is the
  hash in the order in which \<^verbatim>\<open>HGETALL\<close> replies. \<^verbatim>\<open>HSET\<close> on a field that exists
  replaces its value where it stands. Where a new field comes to stand in the reply is the
  server's matter (in a hash table, the bucket of the field's name; in a small packed hash,
  the end): \<open>place\<close> gives, for the name of the new field and the names that are there, the
  number of entries that the reply lists before it. The server is taken to answer every
  command.
\<close>

record redis_hash =
  entries :: "(string \<times> xdm_record) list"
  place :: "string \<Rightarrow> string list \<Rightarrow> nat"

definition put_field ::
  "nat \<Rightarrow> string \<Rightarrow> xdm_record \<Rightarrow> (string \<times> xdm_record) list \<Rightarrow> (string \<times> xdm_record) list" where
  "put_field n k v es =
     (if k \<in> fst ` set es then AList.update k v es else take n es @ (k, v) # drop n es)"

definition hset :: "redis_hash \<Rightarrow> string \<Rightarrow> xdm_record \<Rightarrow> redis_hash" where
  "hset h k v = h\<lparr>entries := put_field (place h k (map fst (entries h))) k v (entries h)\<rparr>"

definition hdel :: "redis_hash \<Rightarrow> string \<Rightarrow> redis_hash" where
  "hdel h k = h\<lparr>entries := AList.delete k (entries h)\<rparr>"

definition hgetall :: "redis_hash \<Rightarrow> (string \<times> xdm_record) list" where
  "hgetall h = entries h"

definition hlen :: "redis_hash \<Rightarrow> nat" where
  "hlen h = length (entries h)"

definition delete_key :: "redis_hash \<Rightarrow> redis_hash" where
  "delete_key h = h\<lparr>entries := []\<rparr>"

text \<open>
  A hash has one value per field, and \<^verbatim>\<open>create\<close> stores every record under its own
  \<^verbatim>\<open>"@id"\<close>.
\<close>

definition wf_store :: "redis_hash \<Rightarrow> bool" where
  "wf_store h \<longleftrightarrow>
     distinct (map fst (entries h)) \<and> list_all (\<lambda>(k, r). adobe_id r = k) (entries h)"

subsection \<open>Class \<^verbatim>\<open>AdobeSDFS\<close>\<close>

definition generate_adobe_id :: "string \<Rightarrow> string" where
  "generate_adobe_id uuid_hex = ''adobe_'' @ take 16 uuid_hex"

text \<open>
  \<^verbatim>\<open>data["name"].split()[0] if data["name"] else ""\<close> raises \<^verbatim>\<open>IndexError\<close> on a name
  that is not empty and holds white space only. The three time stamps are three readings
  of the clock.
\<close>

definition create_adobe_xdm_record ::
  "string \<Rightarrow> timestamp \<times> timestamp \<times> timestamp \<Rightarrow> user_data \<Rightarrow> py_error + xdm_record" where
  "create_adobe_xdm_record uuid_hex clock data =
     (let parts = py_split (data_name data) in
      if data_name data \<noteq> [] \<and> parts = [] then Inl IndexError
      else Inr \<lparr>adobe_id = generate_adobe_id uuid_hex,
                identity_email = data_email data,
                firstName = (if data_name data \<noteq> [] then hd parts else []),
                lastName = (if length parts > 1 then last parts else []),
                age = data_age data,
                phone = data_phone data,
                fullAddress = data_address data,
                xdm_timestamp = fst clock,
                createdAt = fst (snd clock),
                updatedAt = snd (snd clock)\<rparr>)"

text \<open>
  \<^verbatim>\<open>create\<close>: the \<^verbatim>\<open>requests.post\<close> to the simulator changes nothing here and its
  failure is swallowed.
\<close>

definition create ::
  "redis_hash \<Rightarrow> string \<Rightarrow> timestamp \<times> timestamp \<times> timestamp \<Rightarrow> user_data
     \<Rightarrow> py_error + (redis_hash \<times> string)" where
  "create s uuid_hex clock data =
     (case create_adobe_xdm_record uuid_hex clock data of
        Inl e \<Rightarrow> Inl e
      | Inr adobe_record \<Rightarrow>
          Inr (hset s (adobe_id adobe_record) adobe_record, adobe_id adobe_record))"

definition find_all :: "redis_hash \<Rightarrow> xdm_record list" where
  "find_all s = map snd (hgetall s)"

definition find_by_email :: "redis_hash \<Rightarrow> string \<Rightarrow> xdm_record option" where
  "find_by_email s email = List.find (\<lambda>record. identity_email record = email) (find_all s)"

definition apply_update :: "xdm_record \<Rightarrow> update_data \<Rightarrow> timestamp \<Rightarrow> xdm_record" where
  "apply_update record upd now =
     (let r1 = (case upd_name upd of
                  None \<Rightarrow> record
                | Some n \<Rightarrow>
                    (let name_parts = py_split n in
                     record\<lparr>firstName := (if name_parts \<noteq> [] then hd name_parts else []),
                            lastName := (if length name_parts > 1 then last name_parts else [])\<rparr>));
          r2 = (case upd_age upd of None \<Rightarrow> r1 | Some a \<Rightarrow> r1\<lparr>age := a\<rparr>);
          r3 = (case upd_phone upd of None \<Rightarrow> r2 | Some p \<Rightarrow> r2\<lparr>phone := p\<rparr>);
          r4 = (case upd_address upd of None \<Rightarrow> r3 | Some a \<Rightarrow> r3\<lparr>fullAddress := a\<rparr>)
      in r4\<lparr>updatedAt := now\<rparr>)"

definition update_by_email ::
  "redis_hash \<Rightarrow> string \<Rightarrow> update_data \<Rightarrow> timestamp \<Rightarrow> redis_hash \<times> nat" where
  "update_by_email s email upd now =
     (case List.find (\<lambda>record. identity_email record = email) (find_all s) of
        None \<Rightarrow> (s, 0)
      | Some record \<Rightarrow> (hset s (adobe_id record) (apply_update record upd now), 1))"

definition delete_by_email :: "redis_hash \<Rightarrow> string \<Rightarrow> redis_hash \<times> nat" where
  "delete_by_email s email =
     (case List.find (\<lambda>record. identity_email record = email) (find_all s) of
        None \<Rightarrow> (s, 0)
      | Some record \<Rightarrow> (hdel s (adobe_id record), 1))"

definition delete_all :: "redis_hash \<Rightarrow> redis_hash \<times> nat" where
  "delete_all s = (let count = hlen s in (delete_key s, count))"

definition count :: "redis_hash \<Rightarrow> nat" where
  "count s = hlen s"

subsection \<open>The functions of the menu\<close>

text \<open>
  Each wraps a method of the class in \<^verbatim>\<open>try ... except Exception\<close>. \<^verbatim>\<open>phone or ""\<close>
  turns \<^verbatim>\<open>None\<close> into the empty string.
\<close>

definition create_user ::
  "redis_hash \<Rightarrow> string \<Rightarrow> string \<Rightarrow> int \<Rightarrow> string option \<Rightarrow> string option
     \<Rightarrow> string \<Rightarrow> timestamp \<times> timestamp \<times> timestamp \<Rightarrow> redis_hash \<times> string option" where
  "create_user s name email age_v phone_v address_v uuid_hex clock =
     (case find_by_email s email of
        Some existing_user \<Rightarrow> (s, None)
      | None \<Rightarrow>
          (case create s uuid_hex clock
                  \<lparr>data_name = name, data_email = email, data_age = age_v,
                   data_phone = (case phone_v of None \<Rightarrow> [] | Some p \<Rightarrow> p),
                   data_address = (case address_v of None \<Rightarrow> [] | Some a \<Rightarrow> a)\<rparr> of
             Inl e \<Rightarrow> (s, None)
           | Inr (s', record_id) \<Rightarrow> (s', Some record_id)))"


definition get_user_by_email :: "redis_hash \<Rightarrow> string \<Rightarrow> xdm_record option" where
  "get_user_by_email s email = find_by_email s email"

text \<open>The name that \<^verbatim>\<open>get_user_by_email\<close> prints for a record.\<close>

definition full_name :: "xdm_record \<Rightarrow> string" where
  "full_name r = py_strip (firstName r @ '' '' @ lastName r)"

definition update_user ::
  "redis_hash \<Rightarrow> string \<Rightarrow> update_data \<Rightarrow> timestamp \<Rightarrow> redis_hash \<times> nat" where
  "update_user s email updated_data now = update_by_email s email updated_data now"

definition delete_user :: "redis_hash \<Rightarrow> string \<Rightarrow> redis_hash \<times> nat" where
  "delete_user s email = delete_by_email s email"

definition delete_all_users :: "redis_hash \<Rightarrow> redis_hash \<times> nat" where
  "delete_all_users s = delete_all s"

definition get_stats :: "redis_hash \<Rightarrow> nat" where
  "get_stats s = count s"

subsection \<open>Sequences of menu choices\<close>

datatype user_op =
    CreateUser string string int "string option" "string option" string
               "timestamp \<times> timestamp \<times> timestamp"
  | UpdateUser string update_data timestamp
  | DeleteUser string
  | DeleteAllUsers

fun user_step :: "redis_hash \<Rightarrow> user_op \<Rightarrow> redis_hash" where
  "user_step s (CreateUser name email age_v phone_v address_v uuid_hex clock) =
     fst (create_user s name email age_v phone_v address_v uuid_hex clock)"
| "user_step s (UpdateUser email updated_data now) = fst (update_user s email updated_data now)"
| "user_step s (DeleteUser email) = fst (delete_user s email)"
| "user_step s DeleteAllUsers = fst (delete_all_users s)"

text \<open>The clock readings an operation takes, in the order in which it takes them.\<close>

fun op_clock :: "user_op \<Rightarrow> timestamp list" where
  "op_clock (CreateUser name email age_v phone_v address_v uuid_hex clock) =
     [fst clock, fst (snd clock), snd (snd clock)]"
| "op_clock (UpdateUser email updated_data now) = [now]"
| "op_clock (DeleteUser email) = []"
| "op_clock DeleteAllUsers = []"

definition user_run :: "redis_hash \<Rightarrow> user_op list \<Rightarrow> redis_hash" where
  "user_run s ops = foldl user_step s ops"


section \<open>The file-backed store: \<^verbatim>\<open>BDA Course Assigment 1/main.py\<close>\<close>

subsection \<open>The file system\<close>

text \<open>
  The part of the file system the class uses: which paths exist and what they hold, which
  paths the process may neither write nor remove, and how many bytes are free. A copy that
  runs out of space leaves what it has written so far at the destination, as
  \<^verbatim>\<open>shutil.copy2\<close> does. Ancestor directories are not tracked, and paths are written
  without a separator at the end. \<^verbatim>\<open>stat_size\<close> is only asked for a regular file.
\<close>

type_synonym path = string

datatype node = File (content: string) | Dir

record filesystem =
  nodes :: "path \<rightharpoonup> node"
  denied :: "path set"
  free_space :: nat

definition path_name :: "path \<Rightarrow> string" where
  "path_name p = rev (takeWhile (\<lambda>c. c \<noteq> CHR ''/'') (rev p))"

definition path_parent :: "path \<Rightarrow> path" where
  "path_parent p =
     (if CHR ''/'' \<notin> set p then ''.''
      else (let d = rev (tl (dropWhile (\<lambda>c. c \<noteq> CHR ''/'') (rev p)))
            in if d = [] then ''/'' else d))"

definition path_exists :: "filesystem \<Rightarrow> path \<Rightarrow> bool" where
  "path_exists fs p \<longleftrightarrow> nodes fs p \<noteq> None"

definition mkdir :: "filesystem \<Rightarrow> path \<Rightarrow> filesystem \<times> py_error option" where
  "mkdir fs p =
     (case nodes fs p of
        Some (File c) \<Rightarrow> (fs, Some OSError)
      | Some Dir \<Rightarrow> (fs, None)
      | None \<Rightarrow> (if p \<in> denied fs then (fs, Some OSError)
                 else (fs\<lparr>nodes := (nodes fs)(p \<mapsto> Dir)\<rparr>, None)))"

definition copy2 :: "filesystem \<Rightarrow> path \<Rightarrow> path \<Rightarrow> filesystem \<times> py_error option" where
  "copy2 fs src dst =
     (case nodes fs src of
        None \<Rightarrow> (fs, Some FileNotFoundError)
      | Some Dir \<Rightarrow> (fs, Some OSError)
      | Some (File c) \<Rightarrow>
          (let target = (if nodes fs dst = Some Dir then dst @ ''/'' @ path_name src else dst) in
           if target = src \<or> target \<in> denied fs \<or> nodes fs target = Some Dir
           then (fs, Some OSError)
           else (let avail = free_space fs
                       + (case nodes fs target of Some (File old) \<Rightarrow> length old | _ \<Rightarrow> 0) in
                 if length c \<le> avail
                 then (fs\<lparr>nodes := (nodes fs)(target \<mapsto> File c),
                          free_space := avail - length c\<rparr>, None)
                 else (fs\<lparr>nodes := (nodes fs)(target \<mapsto> File (take avail c)),
                          free_space := 0\<rparr>, Some OSError))))"

definition unlink :: "filesystem \<Rightarrow> path \<Rightarrow> filesystem \<times> py_error option" where
  "unlink fs p =
     (case nodes fs p of
        None \<Rightarrow> (fs, Some FileNotFoundError)
      | Some Dir \<Rightarrow> (fs, Some OSError)
      | Some (File c) \<Rightarrow>
          (if p \<in> denied fs then (fs, Some OSError)
           else (fs\<lparr>nodes := (nodes fs)(p := None),
                    free_space := free_space fs + length c\<rparr>, None)))"

definition stat_size :: "filesystem \<Rightarrow> path \<Rightarrow> py_error + nat" where
  "stat_size fs p =
     (case nodes fs p of
        None \<Rightarrow> Inl FileNotFoundError
      | Some (File c) \<Rightarrow> Inr (length c)
      | Some Dir \<Rightarrow> Inr 0)"

subsection \<open>Class \<^verbatim>\<open>AdobeSDFS\<close> of \<^verbatim>\<open>main.py\<close>\<close>

text \<open>
  \<^verbatim>\<open>self.files\<close> is a Python dictionary: it lists its keys in the order in which they were
  first set, an assignment to a key that is there replaces the value where it stands.
  \<^verbatim>\<open>updated_at\<close> is absent until the first call of \<^verbatim>\<open>update_metadata\<close>.
\<close>

record file_info =
  file_id :: string
  original_name :: string
  stored_path :: path
  size_bytes :: nat
  uploaded_at :: timestamp
  metadata :: "string \<rightharpoonup> string"
  updated_at :: "timestamp option"

record sdfs =
  storage_path :: path
  files :: "(string \<times> file_info) list"

definition sdfs_init :: "filesystem \<Rightarrow> path \<Rightarrow> py_error + (filesystem \<times> sdfs)" where
  "sdfs_init fs sp =
     (case mkdir fs sp of
        (fs', Some e) \<Rightarrow> Inl e
      | (fs', None) \<Rightarrow> Inr (fs', \<lparr>storage_path = sp, files = []\<rparr>))"

definition sdfs_create ::
  "filesystem \<Rightarrow> sdfs \<Rightarrow> path \<Rightarrow> (string \<rightharpoonup> string) option \<Rightarrow> string \<Rightarrow> timestamp
     \<Rightarrow> filesystem \<times> sdfs \<times> string option" where
  "sdfs_create fs st file_path md uuid_hex now =
     (if \<not> path_exists fs file_path then (fs, st, None)
      else
        (let fid = generate_adobe_id uuid_hex;
             dest_path = storage_path st @ ''/'' @ fid @ ''_'' @ path_name file_path
         in case copy2 fs file_path dest_path of
              (fs', Some e) \<Rightarrow> (fs', st, None)
            | (fs', None) \<Rightarrow>
                (case stat_size fs' file_path of
                   Inl e \<Rightarrow> (fs', st, None)
                 | Inr sz \<Rightarrow>
                     (fs',
                      st\<lparr>files := AList.update fid
                           \<lparr>file_id = fid,
                            original_name = path_name file_path,
                            stored_path = dest_path,
                            size_bytes = sz,
                            uploaded_at = now,
                            metadata = (case md of None \<Rightarrow> Map.empty | Some m \<Rightarrow> m),
                            updated_at = None\<rparr> (files st)\<rparr>,
                      Some fid))))"

definition read_all :: "sdfs \<Rightarrow> file_info list" where
  "read_all st = map snd (files st)"

definition read_by_id :: "sdfs \<Rightarrow> string \<Rightarrow> file_info option" where
  "read_by_id st fid = map_of (files st) fid"

definition download :: "filesystem \<Rightarrow> sdfs \<Rightarrow> string \<Rightarrow> path \<Rightarrow> filesystem \<times> bool" where
  "download fs st fid dest_path =
     (case map_of (files st) fid of
        None \<Rightarrow> (fs, False)
      | Some info \<Rightarrow>
          (case mkdir fs (path_parent dest_path) of
             (fs1, Some e) \<Rightarrow> (fs1, False)
           | (fs1, None) \<Rightarrow>
               (case copy2 fs1 (stored_path info) dest_path of
                  (fs2, Some e) \<Rightarrow> (fs2, False)
                | (fs2, None) \<Rightarrow> (fs2, True))))"

definition update_metadata ::
  "sdfs \<Rightarrow> string \<Rightarrow> (string \<rightharpoonup> string) \<Rightarrow> timestamp \<Rightarrow> sdfs \<times> bool" where
  "update_metadata st fid new_metadata now =
     (case map_of (files st) fid of
        None \<Rightarrow> (st, False)
      | Some info \<Rightarrow>
          (st\<lparr>files := AList.update fid
                 (info\<lparr>metadata := metadata info ++ new_metadata, updated_at := Some now\<rparr>)
                 (files st)\<rparr>, True))"

definition sdfs_delete :: "filesystem \<Rightarrow> sdfs \<Rightarrow> string \<Rightarrow> filesystem \<times> sdfs \<times> bool" where
  "sdfs_delete fs st fid =
     (case map_of (files st) fid of
        None \<Rightarrow> (fs, st, False)
      | Some info \<Rightarrow>
          (if path_exists fs (stored_path info)
           then (case unlink fs (stored_path info) of
                   (fs', Some e) \<Rightarrow> (fs', st, False)
                 | (fs', None) \<Rightarrow> (fs', st\<lparr>files := AList.delete fid (files st)\<rparr>, True))
           else (fs, st\<lparr>files := AList.delete fid (files st)\<rparr>, True)))"

text \<open>The loop of \<^verbatim>\<open>delete_all\<close> over \<^verbatim>\<open>list(self.files.keys())\<close>: the result of each
  \<^verbatim>\<open>self.delete\<close> is dropped.\<close>

fun delete_each :: "filesystem \<Rightarrow> sdfs \<Rightarrow> string list \<Rightarrow> filesystem \<times> sdfs" where
  "delete_each fs st [] = (fs, st)"
| "delete_each fs st (fid # fids) =
     (case sdfs_delete fs st fid of (fs', st', ok) \<Rightarrow> delete_each fs' st' fids)"

definition sdfs_delete_all :: "filesystem \<Rightarrow> sdfs \<Rightarrow> filesystem \<times> sdfs \<times> nat" where
  "sdfs_delete_all fs st =
     (let n = length (files st) in
      case delete_each fs st (map fst (files st)) of (fs', st') \<Rightarrow> (fs', st', n))"

definition sdfs_count :: "sdfs \<Rightarrow> nat" where
  "sdfs_count st = length (files st)"

subsection \<open>Sequences of operations on the file-backed store\<close>

datatype file_op =
    Create path "(string \<rightharpoonup> string) option" string timestamp
  | UpdateMetadata string "string \<rightharpoonup> string" timestamp
  | Delete string
  | DeleteAll
  | Download string path

fun file_step :: "filesystem \<times> sdfs \<Rightarrow> file_op \<Rightarrow> filesystem \<times> sdfs" where
  "file_step (fs, st) (Create file_path md uuid_hex now) =
     (case sdfs_create fs st file_path md uuid_hex now of (fs', st', r) \<Rightarrow> (fs', st'))"
| "file_step (fs, st) (UpdateMetadata fid new_metadata now) =
     (fs, fst (update_metadata st fid new_metadata now))"
| "file_step (fs, st) (Delete fid) =
     (case sdfs_delete fs st fid of (fs', st', r) \<Rightarrow> (fs', st'))"
| "file_step (fs, st) DeleteAll =
     (case sdfs_delete_all fs st of (fs', st', r) \<Rightarrow> (fs', st'))"
| "file_step (fs, st) (Download fid dest_path) = (fst (download fs st fid dest_path), st)"

definition file_run :: "filesystem \<times> sdfs \<Rightarrow> file_op list \<Rightarrow> filesystem \<times> sdfs" where
  "file_run c ops = foldl file_step c ops"

text \<open>The clock readings an operation on the file-backed store takes.\<close>

fun file_op_clock :: "file_op \<Rightarrow> timestamp list" where
  "file_op_clock (Create file_path md uuid_hex now) = [now]"
| "file_op_clock (UpdateMetadata fid new_metadata now) = [now]"
| "file_op_clock other = []"

text \<open>The identifiers generated along a sequence of operations, in the order of generation.\<close>

fun generated_ids :: "file_op list \<Rightarrow> string list" where
  "generated_ids [] = []"
| "generated_ids (Create file_path md uuid_hex now # ops) =
     generate_adobe_id uuid_hex # generated_ids ops"
| "generated_ids (other # ops) = generated_ids ops"

section \<open>The MongoDB-backed store: \<^verbatim>\<open>lab3/crud.py\<close>\<close>

text \<open>
  A collection is the list of its documents. \<^verbatim>\<open>insert_one\<close> gives the document the
  \<^verbatim>\<open>_id\<close> that the driver generated and refuses an \<^verbatim>\<open>_id\<close> that is there; the script
  declares no other index.
\<close>

record mongo_doc =
  doc_id :: nat
  doc_name :: string
  doc_email :: string
  doc_age :: int
  doc_phone :: "string option"
  doc_address :: "string option"
  doc_created_at :: timestamp
  doc_updated_at :: timestamp

type_synonym collection = "mongo_doc list"

definition insert_one :: "collection \<Rightarrow> mongo_doc \<Rightarrow> py_error + (collection \<times> nat)" where
  "insert_one c d =
     (if doc_id d \<in> set (map doc_id c) then Inl DuplicateKeyError
      else Inr (c @ [d], doc_id d))"

definition count_documents :: "collection \<Rightarrow> nat" where
  "count_documents c = length c"

definition lab3_create_user ::
  "collection \<Rightarrow> string \<Rightarrow> string \<Rightarrow> int \<Rightarrow> string option \<Rightarrow> string option
     \<Rightarrow> nat \<Rightarrow> timestamp \<times> timestamp \<Rightarrow> py_error + (collection \<times> nat)" where
  "lab3_create_user c name email age_v phone_v address_v oid clock =
     insert_one c \<lparr>doc_id = oid, doc_name = name, doc_email = email, doc_age = age_v,
                   doc_phone = phone_v, doc_address = address_v,
                   doc_created_at = fst clock, doc_updated_at = snd clock\<rparr>"

definition lab3_get_stats :: "collection \<Rightarrow> nat" where
  "lab3_get_stats c = count_documents c"




text \<open>
  \<^verbatim>\<open>find\<close> returns the documents in the order of the collection, \<^verbatim>\<open>find_one\<close> the first
  that matches, and \<^verbatim>\<open>delete_one\<close> removes the first that matches and counts it.
\<close>

definition find_one :: "collection \<Rightarrow> string \<Rightarrow> mongo_doc option" where
  "find_one c email = List.find (\<lambda>d. doc_email d = email) c"



definition lab3_get_user_by_email :: "collection \<Rightarrow> string \<Rightarrow> mongo_doc option" where
  "lab3_get_user_by_email c email = find_one c email"


section \<open>Invariants of the stores\<close>



text \<open>The files of a store can all be removed: none is write-protected or a directory.\<close>

definition removable :: "filesystem \<Rightarrow> sdfs \<Rightarrow> bool" where
  "removable fs st \<longleftrightarrow>
     list_all (\<lambda>(k, info). stored_path info \<notin> denied fs \<and> nodes fs (stored_path info) \<noteq> Some Dir)
       (files st)"

section \<open>Example states\<close>

definition ann :: xdm_record where
  "ann = \<lparr>adobe_id = ''adobe_01'', identity_email = ''ann@x.com'', firstName = ''Ann'',
          lastName = ''Lee'', age = 30, phone = ''555'', fullAddress = ''1 Main St'',
          xdm_timestamp = 1, createdAt = 2, updatedAt = 3\<rparr>"

definition twin :: xdm_record where
  "twin = \<lparr>adobe_id = ''adobe_02'', identity_email = ''ann@x.com'', firstName = ''Anna'',
           lastName = ''Li'', age = 52, phone = ''777'', fullAddress = ''2 Side St'',
           xdm_timestamp = 4, createdAt = 5, updatedAt = 6\<rparr>"

definition bob :: xdm_record where
  "bob = \<lparr>adobe_id = ''adobe_03'', identity_email = ''bob@x.com'', firstName = ''Bob'',
          lastName = ''Ray'', age = 44, phone = [], fullAddress = [],
          xdm_timestamp = 7, createdAt = 8, updatedAt = 9\<rparr>"

text \<open>A server that lists a new field last, and one that lists it first.\<close>

definition at_end :: "string \<Rightarrow> string list \<Rightarrow> nat" where
  "at_end k ks = length ks"


definition empty_hash :: redis_hash where
  "empty_hash = \<lparr>entries = [], place = at_end\<rparr>"


definition one_user :: redis_hash where
  "one_user = \<lparr>entries = [(''adobe_01'', ann)], place = at_end\<rparr>"


definition twins :: redis_hash where
  "twins = \<lparr>entries = [(''adobe_03'', bob), (''adobe_01'', ann), (''adobe_02'', twin)],
            place = at_end\<rparr>"

definition older :: update_data where
  "older = \<lparr>upd_name = None, upd_age = Some 31, upd_phone = None, upd_address = None,
            upd_email = None\<rparr>"

definition renamed :: update_data where
  "renamed = \<lparr>upd_name = Some ''Ann Marie Smith'', upd_age = None, upd_phone = None,
              upd_address = None, upd_email = None\<rparr>"

definition new_email :: update_data where
  "new_email = \<lparr>upd_name = None, upd_age = None, upd_phone = None, upd_address = None,
                upd_email = Some ''new@x.com''\<rparr>"

definition ann_doc :: mongo_doc where
  "ann_doc = \<lparr>doc_id = 1, doc_name = ''Ann Lee'', doc_email = ''ann@x.com'', doc_age = 30,
              doc_phone = None, doc_address = None, doc_created_at = 1, doc_updated_at = 2\<rparr>"

definition ann_doc2 :: mongo_doc where
  "ann_doc2 = \<lparr>doc_id = 2, doc_name = ''Ann Other'', doc_email = ''ann@x.com'', doc_age = 20,
               doc_phone = None, doc_address = None, doc_created_at = 7, doc_updated_at = 8\<rparr>"

definition report_info :: file_info where
  "report_info = \<lparr>file_id = ''adobe_0a'', original_name = ''report.txt'',
                  stored_path = ''store/adobe_0a_report.txt'', size_bytes = 5,
                  uploaded_at = 5, metadata = Map.empty, updated_at = None\<rparr>"

definition report_store :: sdfs where
  "report_store = \<lparr>storage_path = ''store'', files = [(''adobe_0a'', report_info)]\<rparr>"

definition empty_store :: sdfs where
  "empty_store = \<lparr>storage_path = ''store'', files = []\<rparr>"

text \<open>A disk with the stored copy of the report, which the process may remove.\<close>

definition open_fs :: filesystem where
  "open_fs = \<lparr>nodes = [''store'' \<mapsto> Dir, ''store/adobe_0a_report.txt'' \<mapsto> File ''hello''],
              denied = {}, free_space = 100\<rparr>"

text \<open>The same disk when the process is denied the removal of the stored copy.\<close>

definition locked_fs :: filesystem where
  "locked_fs = \<lparr>nodes = [''store'' \<mapsto> Dir, ''store/adobe_0a_report.txt'' \<mapsto> File ''hello''],
                denied = {''store/adobe_0a_report.txt''}, free_space = 100\<rparr>"

text \<open>A disk with a file to upload and room for one more byte.\<close>

definition full_fs :: filesystem where
  "full_fs = \<lparr>nodes = [''store'' \<mapsto> Dir, ''in/report.txt'' \<mapsto> File ''hello''],
              denied = {}, free_space = 1\<rparr>"

text \<open>A disk with three files to upload, and a session that uploads them.\<close>

definition upload_fs :: filesystem where
  "upload_fs = \<lparr>nodes = [''store'' \<mapsto> Dir, ''in/a.txt'' \<mapsto> File ''aa'',
                         ''in/b.txt'' \<mapsto> File ''bbb'', ''in/c.txt'' \<mapsto> File ''c''],
                denied = {}, free_space = 100\<rparr>"


section \<open>Association lists and the first match of a scan\<close>

lemma find_snd_split:
  "List.find P (map snd s) = Some r \<Longrightarrow>
     \<exists>pre k post. s = pre @ (k, r) # post \<and> (\<forall>x \<in> set pre. \<not> P (snd x)) \<and> P r"
proof (induction s)
  case Nil
  then show ?case by simp
next
  case (Cons a s)
  show ?case
  proof (cases "P (snd a)")
    case True
    with Cons.prems have "snd a = r" by simp
    then have "a # s = [] @ (fst a, r) # s" by (cases a) simp
    with True \<open>snd a = r\<close> show ?thesis by fastforce
  next
    case False
    with Cons.prems have "List.find P (map snd s) = Some r" by simp
    from Cons.IH [OF this] obtain pre k post
      where "s = pre @ (k, r) # post" "\<forall>x \<in> set pre. \<not> P (snd x)" "P r" by blast
    then have "a # s = (a # pre) @ (k, r) # post \<and> (\<forall>x \<in> set (a # pre). \<not> P (snd x)) \<and> P r"
      using False by simp
    then show ?thesis by blast
  qed
qed

lemma update_in_place:
  "k \<notin> fst ` set pre \<Longrightarrow> AList.update k v' (pre @ (k, v) # post) = pre @ (k, v') # post"
  by (induction pre) auto

lemma delete_in_place:
  "k \<notin> fst ` set pre \<Longrightarrow> k \<notin> fst ` set post \<Longrightarrow>
     AList.delete k (pre @ (k, v) # post) = pre @ post"
  by (induction pre) auto

lemma find_first_match:
  "(\<forall>x \<in> set pre. \<not> P x) \<Longrightarrow> P r \<Longrightarrow> List.find P (pre @ r # post) = Some r"
  by (induction pre) auto


lemma set_delete_subset: "set (AList.delete k s) \<subseteq> set s"
  by (auto simp: AList.delete_eq)

section \<open>A field put into the hash\<close>


lemma put_field_present:
  "k \<notin> fst ` set pre \<Longrightarrow> put_field n k v' (pre @ (k, v) # post) = pre @ (k, v') # post"
  by (simp add: put_field_def update_in_place)

lemma put_field_new:
  "k \<notin> fst ` set es \<Longrightarrow> put_field n k v es = take n es @ (k, v) # drop n es"
  by (simp add: put_field_def)


lemma map_of_put_field: "map_of (put_field n k v es) = (map_of es)(k \<mapsto> v)"
proof (cases "k \<in> fst ` set es")
  case True
  then show ?thesis by (simp add: put_field_def AList.update_conv')
next
  case False
  have t: "k \<notin> fst ` set (take n es)" using False by (auto dest: in_set_takeD)
  have "map_of (take n es @ (k, v) # drop n es) x = ((map_of es)(k \<mapsto> v)) x" for x
  proof (cases "x = k")
    case True
    from t have "map_of (take n es) k = None" by (simp add: map_of_eq_None_iff)
    with True show ?thesis by (simp add: map_add_def)
  next
    case False
    have "map_of (take n es @ drop n es) x = map_of es x" by simp
    with False show ?thesis
      by (auto simp: map_add_def simp del: append_take_drop_id split: option.splits)
  qed
  with False show ?thesis by (auto simp: put_field_def)
qed


lemma length_update:
  "length (AList.update k v es) = (if k \<in> fst ` set es then length es else Suc (length es))"
  by (induction es) auto

lemma length_put_field:
  "length (put_field n k v es) = (if k \<in> fst ` set es then length es else Suc (length es))"
  by (auto simp: put_field_def length_update)

lemma first_key_split:
  "k \<in> fst ` set es \<Longrightarrow> \<exists>q1 w q2. es = q1 @ (k, w) # q2 \<and> k \<notin> fst ` set q1"
proof (induction es)
  case Nil
  then show ?case by simp
next
  case (Cons a es)
  show ?case
  proof (cases "fst a = k")
    case True
    then have "a # es = [] @ (k, snd a) # es \<and> k \<notin> fst ` set []" by (cases a) simp
    then show ?thesis by blast
  next
    case False
    with Cons.prems have "k \<in> fst ` set es" by auto
    from Cons.IH [OF this] obtain q1 w q2
      where "es = q1 @ (k, w) # q2" "k \<notin> fst ` set q1" by blast
    with False have "a # es = (a # q1) @ (k, w) # q2 \<and> k \<notin> fst ` set (a # q1)" by auto
    then show ?thesis by blast
  qed
qed

lemma find_put_field_new:
  assumes "\<forall>x \<in> set es. \<not> P (snd x)" "P v"
  shows "List.find P (map snd (put_field n k v es)) = Some v"
proof -
  have "\<exists>pre post. put_field n k v es = pre @ (k, v) # post \<and> set pre \<subseteq> set es"
  proof (cases "k \<in> fst ` set es")
    case True
    from first_key_split [OF this] obtain q1 w q2
      where q: "es = q1 @ (k, w) # q2" "k \<notin> fst ` set q1" by blast
    then have "put_field n k v es = q1 @ (k, v) # q2" by (simp add: put_field_present)
    with q show ?thesis by auto
  next
    case False
    then have "put_field n k v es = take n es @ (k, v) # drop n es" by (rule put_field_new)
    moreover have "set (take n es) \<subseteq> set es" by (rule set_take_subset)
    ultimately show ?thesis by blast
  qed
  then obtain pre post where p: "put_field n k v es = pre @ (k, v) # post" "set pre \<subseteq> set es"
    by blast
  with assms(1) have "\<forall>x \<in> set (map snd pre). \<not> P x" by auto
  from find_first_match [OF this assms(2)] p(1) show ?thesis by simp
qed


section \<open>The Redis-backed store: what the operations do\<close>

lemma wf_store_split:
  assumes "wf_store s" "entries s = pre @ (k, r) # post"
  shows "k \<notin> fst ` set pre" "k \<notin> fst ` set post" "adobe_id r = k"
  using assms by (auto simp: wf_store_def)

lemma update_by_email_listing:
  assumes wf: "wf_store s" and found: "find_by_email s email = Some r"
  shows "\<exists>pre post. find_all s = pre @ r # post \<and> (\<forall>x \<in> set pre. identity_email x \<noteq> email)
           \<and> identity_email r = email
           \<and> find_all (fst (update_by_email s email upd now)) = pre @ apply_update r upd now # post
           \<and> map fst (entries (fst (update_by_email s email upd now))) = map fst (entries s)
           \<and> snd (update_by_email s email upd now) = 1
           \<and> find_all (fst (delete_by_email s email)) = pre @ post
           \<and> snd (delete_by_email s email) = 1"
proof -
  from found
  have f: "List.find (\<lambda>record. identity_email record = email) (map snd (entries s)) = Some r"
    by (simp add: find_by_email_def find_all_def hgetall_def)
  from find_snd_split [OF f] obtain pre k post
    where s: "entries s = pre @ (k, r) # post"
      and pre: "\<forall>x \<in> set pre. identity_email (snd x) \<noteq> email"
      and r: "identity_email r = email" by blast
  note w = wf_store_split [OF wf s]
  have u: "put_field n k (apply_update r upd now) (entries s)
             = pre @ (k, apply_update r upd now) # post" for n
    unfolding s using w(1) by (rule put_field_present)
  have d: "AList.delete k (entries s) = pre @ post"
    unfolding s using w(1,2) by (rule delete_in_place)
  have "find_all s = map snd pre @ r # map snd post"
    by (simp add: s find_all_def hgetall_def)
  moreover have "\<forall>x \<in> set (map snd pre). identity_email x \<noteq> email"
    using pre by simp
  moreover have "find_all (fst (update_by_email s email upd now))
                   = map snd pre @ apply_update r upd now # map snd post"
    using f u w(3) by (simp add: update_by_email_def find_all_def hgetall_def hset_def)
  moreover have "map fst (entries (fst (update_by_email s email upd now))) = map fst (entries s)"
    using f u w(3) by (simp add: update_by_email_def find_all_def hgetall_def hset_def s)
  moreover have "snd (update_by_email s email upd now) = 1"
    using f by (simp add: update_by_email_def find_all_def hgetall_def)
  moreover have "find_all (fst (delete_by_email s email)) = map snd pre @ map snd post"
    using f d w(3) by (simp add: delete_by_email_def find_all_def hgetall_def hdel_def)
  moreover have "snd (delete_by_email s email) = 1"
    using f by (simp add: delete_by_email_def find_all_def hgetall_def)
  ultimately show ?thesis using r by blast
qed

lemma count_le_one:
  "snd (update_by_email s email upd now) \<le> 1" "snd (delete_by_email s email) \<le> 1"
  by (simp_all add: update_by_email_def delete_by_email_def split: option.splits)

lemma create_record_fields:
  assumes "create_adobe_xdm_record uuid_hex clock data = Inr r"
  shows "adobe_id r = generate_adobe_id uuid_hex" "identity_email r = data_email data"
    "age r = data_age data" "phone r = data_phone data" "fullAddress r = data_address data"
    "firstName r = (if data_name data = [] then [] else hd (py_split (data_name data)))"
    "lastName r = (if length (py_split (data_name data)) > 1
                   then last (py_split (data_name data)) else [])"
    "xdm_timestamp r = fst clock" "createdAt r = fst (snd clock)" "updatedAt r = snd (snd clock)"
  using assms by (auto simp: create_adobe_xdm_record_def Let_def split: if_splits)

lemma create_user_Some:
  assumes "create_user s name email a ph ad uuid_hex clock = (s', Some rid)"
  shows "\<exists>r. create_adobe_xdm_record uuid_hex clock
               \<lparr>data_name = name, data_email = email, data_age = a,
                data_phone = (case ph of None \<Rightarrow> [] | Some p \<Rightarrow> p),
                data_address = (case ad of None \<Rightarrow> [] | Some a \<Rightarrow> a)\<rparr> = Inr r
             \<and> find_by_email s email = None \<and> s' = hset s rid r \<and> rid = adobe_id r"
  using assms
  by (auto simp: create_user_def create_def split: option.splits sum.splits)

lemma create_user_then_find:
  assumes "create_user s name email a ph ad uuid_hex clock = (s', Some rid)"
  shows "\<exists>r. find_by_email s' email = Some r
            \<and> create_adobe_xdm_record uuid_hex clock
               \<lparr>data_name = name, data_email = email, data_age = a,
                data_phone = (case ph of None \<Rightarrow> [] | Some p \<Rightarrow> p),
                data_address = (case ad of None \<Rightarrow> [] | Some a \<Rightarrow> a)\<rparr> = Inr r
            \<and> rid = adobe_id r"
proof -
  from create_user_Some [OF assms] obtain r
    where r: "create_adobe_xdm_record uuid_hex clock
               \<lparr>data_name = name, data_email = email, data_age = a,
                data_phone = (case ph of None \<Rightarrow> [] | Some p \<Rightarrow> p),
                data_address = (case ad of None \<Rightarrow> [] | Some a \<Rightarrow> a)\<rparr> = Inr r"
      and none: "find_by_email s email = None" and s': "s' = hset s rid r"
      and rid: "rid = adobe_id r"
    by blast
  from none have "\<forall>x \<in> set (entries s). identity_email (snd x) \<noteq> email"
    by (auto simp: find_by_email_def find_all_def hgetall_def find_None_iff)
  moreover have "identity_email r = email"
    using create_record_fields(2) [OF r] by simp
  ultimately have
    "List.find (\<lambda>x. identity_email x = email) (map snd (put_field n rid r (entries s))) = Some r"
    for n
    by (intro find_put_field_new) auto
  then have "find_by_email s' email = Some r"
    by (simp add: s' find_by_email_def find_all_def hgetall_def hset_def)
  with r rid show ?thesis by blast
qed

section \<open>Creation with an email that is taken\<close>

text \<open>
  C1, as the code has it. In the Redis-backed store \<^verbatim>\<open>create_user\<close> with the email of a
  record that is there returns \<^verbatim>\<open>None\<close> and leaves the store, and so its size, as it
  was; and a \<^verbatim>\<open>create_user\<close> that follows at once on a successful one with the same
  email is rejected in this way. (The MongoDB-backed \<^verbatim>\<open>create_user\<close> has no such check.)
\<close>

theorem create_user_duplicate_rejected:
  "(find_by_email s email = Some r \<longrightarrow>
       create_user s name email a ph ad uuid_hex clock = (s, None)
       \<and> get_stats (fst (create_user s name email a ph ad uuid_hex clock)) = get_stats s)
   \<and> (create_user s name email a ph ad uuid_hex clock = (s', Some rid) \<longrightarrow>
       create_user s' name2 email a2 ph2 ad2 uuid_hex2 clock2 = (s', None)
       \<and> get_stats (fst (create_user s' name2 email a2 ph2 ad2 uuid_hex2 clock2)) = get_stats s')"
proof -
  have rej: "create_user t n email b p d u c = (t, None)" if "find_by_email t email = Some x"
    for t n b p d u c x
    using that by (simp add: create_user_def)
  have "create_user s' name2 email a2 ph2 ad2 uuid_hex2 clock2 = (s', None)"
    if "create_user s name email a ph ad uuid_hex clock = (s', Some rid)"
    using create_user_then_find [OF that] rej by blast
  with rej show ?thesis by auto
qed

text \<open>
  The theorem at a store that holds Ann: a second user with her email is turned away, and
  that store is what creating Ann in the empty store gives.
\<close>

theorem create_user_duplicate_rejected_witness:
  "find_by_email one_user ''ann@x.com'' = Some ann
   \<and> create_user one_user ''Ann Other'' ''ann@x.com'' 20 None None ''ffff'' (7, 8, 9)
       = (one_user, None)
   \<and> create_user empty_hash ''Ann Lee'' ''ann@x.com'' 30 (Some ''555'') (Some ''1 Main St'')
         ''01'' (1, 2, 3)
       = (one_user, Some ''adobe_01'')
   \<and> get_stats one_user = 1"
proof -
  have h1: "find_by_email one_user ''ann@x.com'' = Some ann"
    by (simp add: find_by_email_def find_all_def hgetall_def one_user_def ann_def)
  have h2: "create_user empty_hash ''Ann Lee'' ''ann@x.com'' 30 (Some ''555'') (Some ''1 Main St'')
              ''01'' (1, 2, 3) = (one_user, Some ''adobe_01'')"
    by (simp add: create_user_def create_def create_adobe_xdm_record_def find_by_email_def
        find_all_def hgetall_def hset_def put_field_def generate_adobe_id_def py_split_def
        is_space_def empty_hash_def one_user_def ann_def)
  from create_user_duplicate_rejected [of one_user "''ann@x.com''" ann "''Ann Other''" 20
      None None "''ffff''" "(7, 8, 9)"] h1
  have "create_user one_user ''Ann Other'' ''ann@x.com'' 20 None None ''ffff'' (7, 8, 9)
          = (one_user, None)"
    by simp
  with h1 h2 show ?thesis by (simp add: get_stats_def count_def hlen_def one_user_def)
qed

text \<open>
  In the MongoDB-backed store the same call is accepted: a collection that holds a document
  with Ann's email takes a second one with that email and grows from one document to two.
\<close>

theorem lab3_duplicate_accepted:
  "doc_email ann_doc = ''ann@x.com''
   \<and> lab3_create_user [ann_doc] ''Ann Other'' ''ann@x.com'' 20 None None 2 (7, 8)
       = Inr ([ann_doc, \<lparr>doc_id = 2, doc_name = ''Ann Other'', doc_email = ''ann@x.com'',
                        doc_age = 20, doc_phone = None, doc_address = None,
                        doc_created_at = 7, doc_updated_at = 8\<rparr>], 2)
   \<and> lab3_get_stats [ann_doc] = 1
   \<and> lab3_get_stats [ann_doc, \<lparr>doc_id = 2, doc_name = ''Ann Other'', doc_email = ''ann@x.com'',
                        doc_age = 20, doc_phone = None, doc_address = None,
                        doc_created_at = 7, doc_updated_at = 8\<rparr>] = 2"
  by (simp add: lab3_create_user_def insert_one_def lab3_get_stats_def count_documents_def
      ann_doc_def)

section \<open>Creation followed by a read\<close>

lemma split_acc_word:
  "\<forall>c \<in> set w. \<not> is_space c \<Longrightarrow> split_acc acc (w @ rest) = split_acc (acc @ w) rest"
  by (induction w arbitrary: acc) auto

lemma py_split_one_word:
  assumes "\<forall>c \<in> set w. \<not> is_space c" "w \<noteq> []"
  shows "py_split w = [w]"
  using split_acc_word [OF assms(1), of "[]" "[]"] assms(2) by (simp add: py_split_def)

lemma py_split_two_words:
  assumes "\<forall>c \<in> set w1. \<not> is_space c" "\<forall>c \<in> set w2. \<not> is_space c" "w1 \<noteq> []" "w2 \<noteq> []"
  shows "py_split (w1 @ '' '' @ w2) = [w1, w2]"
proof -
  have sp: "is_space CHR '' ''" by (simp add: is_space_def)
  have "py_split (w1 @ '' '' @ w2) = split_acc w1 ('' '' @ w2)"
    using split_acc_word [OF assms(1), of "[]" "'' '' @ w2"] by (simp add: py_split_def)
  also have "\<dots> = w1 # split_acc [] (w2 @ [])"
    using assms(3) sp by simp
  also have "split_acc [] (w2 @ []) = [w2]"
    using split_acc_word [OF assms(2), of "[]" "[]"] assms(4) by simp
  finally show ?thesis .
qed

lemma py_strip_tight:
  assumes "s \<noteq> []" "\<not> is_space (hd s)" "\<not> is_space (last s)"
  shows "py_strip s = s"
proof -
  have "dropWhile is_space s = s" using assms(2) by (simp add: dropWhile_eq_self_iff)
  moreover have "dropWhile is_space (rev s) = rev s"
    using assms(1,3) by (simp add: dropWhile_eq_self_iff hd_rev)
  ultimately show ?thesis by (simp add: py_strip_def)
qed

lemma py_strip_trailing_blank:
  assumes "\<forall>c \<in> set w. \<not> is_space c"
  shows "py_strip (w @ '' '') = w"
proof (cases "w = []")
  case True
  then show ?thesis by (simp add: py_strip_def is_space_def)
next
  case False
  have sp: "is_space CHR '' ''" by (simp add: is_space_def)
  from False assms have "\<not> is_space (hd w)" "\<not> is_space (last w)" by auto
  then have "dropWhile is_space (w @ '' '') = w @ '' ''" "dropWhile is_space (rev w) = rev w"
    using False by (simp_all add: dropWhile_eq_self_iff hd_rev hd_append)
  then show ?thesis using sp by (simp add: py_strip_def)
qed

lemma full_name_plain:
  assumes r: "firstName r = (if name = [] then [] else hd (py_split name))"
             "lastName r = (if length (py_split name) > 1 then last (py_split name) else [])"
  shows "(\<forall>c \<in> set name. \<not> is_space c) \<longrightarrow> full_name r = name"
    and "name = w1 @ '' '' @ w2 \<and> w1 \<noteq> [] \<and> w2 \<noteq> [] \<and> (\<forall>c \<in> set (w1 @ w2). \<not> is_space c)
           \<longrightarrow> full_name r = name"
proof -
  show "(\<forall>c \<in> set name. \<not> is_space c) \<longrightarrow> full_name r = name"
  proof
    assume ns: "\<forall>c \<in> set name. \<not> is_space c"
    show "full_name r = name"
    proof (cases "name = []")
      case True
      with r show ?thesis by (simp add: full_name_def py_split_def py_strip_def is_space_def)
    next
      case False
      with r py_split_one_word [OF ns False] have "firstName r = name" "lastName r = []" by simp_all
      then show ?thesis using py_strip_trailing_blank [OF ns] by (simp add: full_name_def)
    qed
  qed
  show "name = w1 @ '' '' @ w2 \<and> w1 \<noteq> [] \<and> w2 \<noteq> [] \<and> (\<forall>c \<in> set (w1 @ w2). \<not> is_space c)
           \<longrightarrow> full_name r = name"
  proof
    assume a: "name = w1 @ '' '' @ w2 \<and> w1 \<noteq> [] \<and> w2 \<noteq> [] \<and> (\<forall>c \<in> set (w1 @ w2). \<not> is_space c)"
    then have w: "\<forall>c \<in> set w1. \<not> is_space c" "\<forall>c \<in> set w2. \<not> is_space c" "w1 \<noteq> []" "w2 \<noteq> []"
      by auto
    from py_split_two_words [OF w] a have sp: "py_split name = [w1, w2]" by simp
    with r a have "firstName r = w1" "lastName r = w2" by simp_all
    then have "full_name r = py_strip name" using a by (simp add: full_name_def)
    moreover have "py_strip name = name"
    proof (rule py_strip_tight)
      show "name \<noteq> []" using a by simp
      show "\<not> is_space (hd name)" using a w by (simp add: hd_append)
      show "\<not> is_space (last name)" using a w by simp
    qed
    ultimately show "full_name r = name" by simp
  qed
qed

lemma find_one_append:
  "find_one (c @ [d]) email
     = (case find_one c email of
          Some d0 \<Rightarrow> Some d0
        | None \<Rightarrow> (if doc_email d = email then Some d else None))"
  unfolding find_one_def by (induction c) auto

text \<open>
  C3, as the code has it. In the Redis-backed store, after a successful \<^verbatim>\<open>create_user\<close>,
  \<^verbatim>\<open>get_user_by_email\<close> with the email returns the record just created; its email, age,
  phone and address are the values supplied (an absent phone or address is the empty
  string). Of the name the record keeps the first word and, when there are two or more, the
  last word: the name is read back as supplied when it has no white space, or is two words
  with one blank between them. In the MongoDB-backed store, after a successful
  \<^verbatim>\<open>create_user\<close>, \<^verbatim>\<open>get_user_by_email\<close> returns the first document of the collection with
  that email: the document just created, with every field as supplied, when no earlier
  document carries the email, and the earliest such document otherwise.
\<close>

theorem create_then_read:
  "(create_user s name email a ph ad uuid_hex clock = (s', Some rid) \<longrightarrow>
      (\<exists>r. get_user_by_email s' email = Some r
            \<and> adobe_id r = rid \<and> identity_email r = email \<and> age r = a
            \<and> phone r = (case ph of None \<Rightarrow> [] | Some p \<Rightarrow> p)
            \<and> fullAddress r = (case ad of None \<Rightarrow> [] | Some d \<Rightarrow> d)
            \<and> firstName r = (if name = [] then [] else hd (py_split name))
            \<and> lastName r = (if length (py_split name) > 1 then last (py_split name) else [])
            \<and> ((\<forall>c \<in> set name. \<not> is_space c) \<longrightarrow> full_name r = name)
            \<and> (\<forall>w1 w2. name = w1 @ '' '' @ w2 \<and> w1 \<noteq> [] \<and> w2 \<noteq> []
                         \<and> (\<forall>c \<in> set (w1 @ w2). \<not> is_space c) \<longrightarrow> full_name r = name)))
   \<and> (lab3_create_user c name email a ph ad oid clock2 = Inr (c', oid') \<longrightarrow>
        lab3_get_user_by_email c' email
          = (case lab3_get_user_by_email c email of
               Some earlier \<Rightarrow> Some earlier
             | None \<Rightarrow> Some \<lparr>doc_id = oid, doc_name = name, doc_email = email, doc_age = a,
                             doc_phone = ph, doc_address = ad,
                             doc_created_at = fst clock2, doc_updated_at = snd clock2\<rparr>))"
proof -
  have redis: "\<exists>r. get_user_by_email s' email = Some r
            \<and> adobe_id r = rid \<and> identity_email r = email \<and> age r = a
            \<and> phone r = (case ph of None \<Rightarrow> [] | Some p \<Rightarrow> p)
            \<and> fullAddress r = (case ad of None \<Rightarrow> [] | Some d \<Rightarrow> d)
            \<and> firstName r = (if name = [] then [] else hd (py_split name))
            \<and> lastName r = (if length (py_split name) > 1 then last (py_split name) else [])
            \<and> ((\<forall>c \<in> set name. \<not> is_space c) \<longrightarrow> full_name r = name)
            \<and> (\<forall>w1 w2. name = w1 @ '' '' @ w2 \<and> w1 \<noteq> [] \<and> w2 \<noteq> []
                         \<and> (\<forall>c \<in> set (w1 @ w2). \<not> is_space c) \<longrightarrow> full_name r = name)"
    if cr: "create_user s name email a ph ad uuid_hex clock = (s', Some rid)"
  proof -
    from create_user_then_find [OF cr] obtain r
      where f: "find_by_email s' email = Some r"
        and r: "create_adobe_xdm_record uuid_hex clock
                 \<lparr>data_name = name, data_email = email, data_age = a,
                  data_phone = (case ph of None \<Rightarrow> [] | Some p \<Rightarrow> p),
                  data_address = (case ad of None \<Rightarrow> [] | Some a \<Rightarrow> a)\<rparr> = Inr r"
        and rid: "rid = adobe_id r" by blast
    note c = create_record_fields [OF r]
    have n: "firstName r = (if name = [] then [] else hd (py_split name))"
            "lastName r = (if length (py_split name) > 1 then last (py_split name) else [])"
      using c(6,7) by simp_all
    note fn = full_name_plain [OF n]
    have "get_user_by_email s' email = Some r" using f by (simp add: get_user_by_email_def)
    moreover have "adobe_id r = rid" "identity_email r = email" "age r = a"
      "phone r = (case ph of None \<Rightarrow> [] | Some p \<Rightarrow> p)"
      "fullAddress r = (case ad of None \<Rightarrow> [] | Some d \<Rightarrow> d)"
      using c rid by simp_all
    ultimately show ?thesis using n fn by blast
  qed
  have lab3: "lab3_get_user_by_email c' email
          = (case lab3_get_user_by_email c email of
               Some earlier \<Rightarrow> Some earlier
             | None \<Rightarrow> Some \<lparr>doc_id = oid, doc_name = name, doc_email = email, doc_age = a,
                             doc_phone = ph, doc_address = ad,
                             doc_created_at = fst clock2, doc_updated_at = snd clock2\<rparr>)"
    if "lab3_create_user c name email a ph ad oid clock2 = Inr (c', oid')"
  proof -
    from that have "c' = c @ [\<lparr>doc_id = oid, doc_name = name, doc_email = email, doc_age = a,
                             doc_phone = ph, doc_address = ad,
                             doc_created_at = fst clock2, doc_updated_at = snd clock2\<rparr>]"
      by (auto simp: lab3_create_user_def insert_one_def split: if_splits)
    then show ?thesis
      by (simp add: lab3_get_user_by_email_def find_one_append split: option.splits)
  qed
  from redis lab3 show ?thesis by blast
qed

text \<open>
  The theorem at the creation of Ann Lee in the empty hash and in the empty collection.
\<close>

theorem create_then_read_witness:
  "create_user empty_hash ''Ann Lee'' ''ann@x.com'' 30 (Some ''555'') (Some ''1 Main St'')
       ''01'' (1, 2, 3)
       = (one_user, Some ''adobe_01'')
   \<and> get_user_by_email one_user ''ann@x.com'' = Some ann
   \<and> full_name ann = ''Ann Lee''
   \<and> lab3_create_user [] ''Ann Lee'' ''ann@x.com'' 30 None None 1 (1, 2) = Inr ([ann_doc], 1)
   \<and> lab3_get_user_by_email [ann_doc] ''ann@x.com'' = Some ann_doc"
proof -
  have h: "create_user empty_hash ''Ann Lee'' ''ann@x.com'' 30 (Some ''555'') (Some ''1 Main St'')
              ''01'' (1, 2, 3) = (one_user, Some ''adobe_01'')"
    by (simp add: create_user_def create_def create_adobe_xdm_record_def find_by_email_def
        find_all_def hgetall_def hset_def put_field_def generate_adobe_id_def py_split_def
        is_space_def empty_hash_def one_user_def ann_def)
  have g: "get_user_by_email one_user ''ann@x.com'' = Some ann"
    by (simp add: get_user_by_email_def find_by_email_def find_all_def hgetall_def one_user_def
        ann_def)
  have l: "lab3_create_user [] ''Ann Lee'' ''ann@x.com'' 30 None None 1 (1, 2) = Inr ([ann_doc], 1)"
    by (simp add: lab3_create_user_def insert_one_def ann_doc_def)
  have e: "lab3_get_user_by_email [] ''ann@x.com'' = None"
    by (simp add: lab3_get_user_by_email_def find_one_def)
  have ns: "\<forall>c \<in> set (''Ann'' @ ''Lee''). \<not> is_space c" by (simp add: is_space_def)
  note t = create_then_read [of empty_hash "''Ann Lee''" "''ann@x.com''" 30 "Some ''555''"
      "Some ''1 Main St''" "''01''" "(1, 2, 3)" one_user "''adobe_01''" "[]" 1 "(1, 2)"]
  from t h g
  have "\<forall>w1 w2. ''Ann Lee'' = w1 @ '' '' @ w2 \<and> w1 \<noteq> [] \<and> w2 \<noteq> []
                         \<and> (\<forall>c \<in> set (w1 @ w2). \<not> is_space c) \<longrightarrow> full_name ann = ''Ann Lee''"
    by simp
  then have "''Ann Lee'' = ''Ann'' @ '' '' @ ''Lee'' \<and> ''Ann'' \<noteq> [] \<and> ''Lee'' \<noteq> []
               \<and> (\<forall>c \<in> set (''Ann'' @ ''Lee''). \<not> is_space c) \<longrightarrow> full_name ann = ''Ann Lee''"
    by blast
  with ns have fn: "full_name ann = ''Ann Lee''" by simp
  have "lab3_get_user_by_email [ann_doc] ''ann@x.com'' = Some ann_doc"
    by (simp add: lab3_get_user_by_email_def find_one_def ann_doc_def)
  with h g fn l show ?thesis by simp
qed

text \<open>
  A name of three words is not read back: of ``Ann Marie Smith'' the Redis-backed record
  holds ``Ann'' and ``Smith'', and the name shown for it is ``Ann Smith''; the phone that was
  not supplied is read back as the empty string. And in a MongoDB collection that holds a
  document with Ann's email, the read after the creation of a second user with that email
  returns the first document, whose name is not the one just supplied.
\<close>

theorem middle_name_lost:
  "create_user empty_hash ''Ann Marie Smith'' ''ann@x.com'' 30 None None ''0123456789abcdef0123''
       (1, 2, 3)
     = (\<lparr>entries = [(''adobe_0123456789abcdef'',
          \<lparr>adobe_id = ''adobe_0123456789abcdef'', identity_email = ''ann@x.com'',
           firstName = ''Ann'', lastName = ''Smith'', age = 30, phone = [], fullAddress = [],
           xdm_timestamp = 1, createdAt = 2, updatedAt = 3\<rparr>)], place = at_end\<rparr>,
        Some ''adobe_0123456789abcdef'')
   \<and> get_user_by_email \<lparr>entries = [(''adobe_0123456789abcdef'',
          \<lparr>adobe_id = ''adobe_0123456789abcdef'', identity_email = ''ann@x.com'',
           firstName = ''Ann'', lastName = ''Smith'', age = 30, phone = [], fullAddress = [],
           xdm_timestamp = 1, createdAt = 2, updatedAt = 3\<rparr>)], place = at_end\<rparr> ''ann@x.com''
      = Some \<lparr>adobe_id = ''adobe_0123456789abcdef'', identity_email = ''ann@x.com'',
           firstName = ''Ann'', lastName = ''Smith'', age = 30, phone = [], fullAddress = [],
           xdm_timestamp = 1, createdAt = 2, updatedAt = 3\<rparr>
   \<and> full_name \<lparr>adobe_id = ''adobe_0123456789abcdef'', identity_email = ''ann@x.com'',
           firstName = ''Ann'', lastName = ''Smith'', age = 30, phone = [], fullAddress = [],
           xdm_timestamp = 1, createdAt = 2, updatedAt = 3\<rparr> = ''Ann Smith''
   \<and> ''Ann Smith'' \<noteq> ''Ann Marie Smith''
   \<and> lab3_create_user [ann_doc] ''Ann Other'' ''ann@x.com'' 20 None None 2 (7, 8)
       = Inr ([ann_doc, ann_doc2], 2)
   \<and> lab3_get_user_by_email [ann_doc, ann_doc2] ''ann@x.com'' = Some ann_doc
   \<and> doc_name ann_doc = ''Ann Lee''
   \<and> doc_age ann_doc = 30"
  by (simp add: create_user_def create_def create_adobe_xdm_record_def find_by_email_def
        find_all_def hgetall_def hset_def put_field_def generate_adobe_id_def py_split_def
        is_space_def get_user_by_email_def full_name_def py_strip_def empty_hash_def at_end_def
        lab3_create_user_def insert_one_def lab3_get_user_by_email_def find_one_def
        ann_doc_def ann_doc2_def)

text \<open>
  The no-break space separates words as the blank does, and a name that consists of it
  alone makes the creation of the record raise.
\<close>

lemma split_no_break_space:
  "py_split [CHR ''A'', CHR 0xA0, CHR ''B''] = [''A'', ''B'']"
  "create_adobe_xdm_record u clock
     \<lparr>data_name = [CHR 0xA0], data_email = e, data_age = a, data_phone = p, data_address = d\<rparr>
     = Inl IndexError"
  by (simp_all add: py_split_def is_space_def create_adobe_xdm_record_def)

section \<open>Updates and deletions by email\<close>








lemma apply_update_keeps:
  "adobe_id (apply_update r upd now) = adobe_id r"
  "identity_email (apply_update r upd now) = identity_email r"
  "createdAt (apply_update r upd now) = createdAt r"
  "updatedAt (apply_update r upd now) = now"
  by (simp_all add: apply_update_def Let_def split: option.splits)

lemma apply_update_fields:
  "upd_age upd = Some a \<Longrightarrow> age (apply_update r upd now) = a"
  "upd_phone upd = Some p \<Longrightarrow> phone (apply_update r upd now) = p"
  "upd_address upd = Some d \<Longrightarrow> fullAddress (apply_update r upd now) = d"
  "upd_name upd = Some n \<Longrightarrow>
     firstName (apply_update r upd now) = (if py_split n = [] then [] else hd (py_split n))
     \<and> lastName (apply_update r upd now)
         = (if length (py_split n) > 1 then last (py_split n) else [])"
  by (simp_all add: apply_update_def Let_def split: option.splits)




text \<open>
  C9. In a Redis hash that stores every record under its own identifier, \<^verbatim>\<open>update_by_email\<close>
  and \<^verbatim>\<open>delete_by_email\<close> return at most 1. When a record carries the email, let \<open>r\<close> be
  the first such record of the listing: the update returns 1 and the listing afterwards is
  the old one with \<open>r\<close> replaced, where it stands, by its updated version; the deletion
  returns 1 and the listing afterwards is the old one without \<open>r\<close>. Every other record,
  also one with the same email, stays as it was and where it was.
\<close>

theorem first_match_only:
  assumes "wf_store s"
  shows "snd (update_by_email s email upd now) \<le> 1 \<and> snd (delete_by_email s email) \<le> 1
    \<and> (\<forall>r. find_by_email s email = Some r \<longrightarrow>
         (\<exists>pre post. find_all s = pre @ r # post
            \<and> (\<forall>x \<in> set pre. identity_email x \<noteq> email) \<and> identity_email r = email
            \<and> find_all (fst (update_by_email s email upd now)) = pre @ apply_update r upd now # post
            \<and> snd (update_by_email s email upd now) = 1
            \<and> find_all (fst (delete_by_email s email)) = pre @ post
            \<and> snd (delete_by_email s email) = 1))"
proof -
  have "\<exists>pre post. find_all s = pre @ r # post
            \<and> (\<forall>x \<in> set pre. identity_email x \<noteq> email) \<and> identity_email r = email
            \<and> find_all (fst (update_by_email s email upd now)) = pre @ apply_update r upd now # post
            \<and> snd (update_by_email s email upd now) = 1
            \<and> find_all (fst (delete_by_email s email)) = pre @ post
            \<and> snd (delete_by_email s email) = 1"
    if "find_by_email s email = Some r" for r
    using update_by_email_listing [OF assms that, of upd now] by blast
  then show ?thesis
    using count_le_one(1) [of s email upd now] count_le_one(2) [of s email] by blast
qed

text \<open>
  The theorem at a store where Ann and a second record share an email, listed after Bob:
  the update changes Ann's age and time stamp only, the deletion removes Ann only.
\<close>

theorem first_match_only_witness:
  "wf_store twins
   \<and> find_all twins = [bob, ann, twin]
   \<and> identity_email ann = identity_email twin
   \<and> find_by_email twins ''ann@x.com'' = Some ann
   \<and> update_by_email twins ''ann@x.com'' older 10
       = (twins\<lparr>entries := [(''adobe_03'', bob), (''adobe_01'', ann\<lparr>age := 31, updatedAt := 10\<rparr>),
                             (''adobe_02'', twin)]\<rparr>, 1)
   \<and> delete_by_email twins ''ann@x.com''
       = (twins\<lparr>entries := [(''adobe_03'', bob), (''adobe_02'', twin)]\<rparr>, 1)
   \<and> length (find_all (fst (delete_by_email twins ''ann@x.com''))) = 2"
proof -
  have w: "wf_store twins"
    by (simp add: wf_store_def twins_def ann_def bob_def twin_def)
  have l: "find_all twins = [bob, ann, twin]"
    by (simp add: find_all_def hgetall_def twins_def)
  have f: "find_by_email twins ''ann@x.com'' = Some ann"
    by (simp add: find_by_email_def l ann_def bob_def)
  from first_match_only [OF w, of "''ann@x.com''" older 10] f
  obtain pre post where "find_all twins = pre @ ann # post"
    "find_all (fst (delete_by_email twins ''ann@x.com'')) = pre @ post" by blast
  with l have n: "length (find_all (fst (delete_by_email twins ''ann@x.com''))) = 2"
    by (metis add_Suc_right length_append length_Cons list.size(3) numeral_2_eq_2 old.nat.inject)
  have u: "update_by_email twins ''ann@x.com'' older 10
       = (twins\<lparr>entries := [(''adobe_03'', bob), (''adobe_01'', ann\<lparr>age := 31, updatedAt := 10\<rparr>),
                             (''adobe_02'', twin)]\<rparr>, 1)"
    by (simp add: update_by_email_def l hset_def put_field_def apply_update_def older_def)
       (simp add: twins_def ann_def bob_def)
  have d: "delete_by_email twins ''ann@x.com''
       = (twins\<lparr>entries := [(''adobe_03'', bob), (''adobe_02'', twin)]\<rparr>, 1)"
    by (simp add: delete_by_email_def l hdel_def)
       (simp add: twins_def ann_def bob_def)
  have e: "identity_email ann = identity_email twin" by (simp add: ann_def twin_def)
  from w l e f u d n show ?thesis by simp
qed

section \<open>Deleting everything\<close>

lemma redis_delete_all:
  "delete_all_users s = (s\<lparr>entries := []\<rparr>, length (entries s))"
  "get_stats (fst (delete_all_users s)) = 0"
  by (simp_all add: delete_all_users_def delete_all_def delete_key_def hlen_def get_stats_def
      count_def Let_def)

lemma sdfs_delete_untracked:
  "map_of (files st) fid = None \<Longrightarrow> sdfs_delete fs st fid = (fs, st, False)"
  by (simp add: sdfs_delete_def)

lemma sdfs_delete_removable:
  assumes "removable fs st" "map_of (files st) fid = Some info"
  shows "\<exists>fs'. sdfs_delete fs st fid = (fs', st\<lparr>files := AList.delete fid (files st)\<rparr>, True)
            \<and> removable fs' (st\<lparr>files := AList.delete fid (files st)\<rparr>)"
proof -
  from assms(2) have "(fid, info) \<in> set (files st)" by (rule map_of_SomeD)
  with assms(1) have ok: "stored_path info \<notin> denied fs" "nodes fs (stored_path info) \<noteq> Some Dir"
    by (auto simp: removable_def list_all_iff)
  have sub: "removable fs' (st\<lparr>files := AList.delete fid (files st)\<rparr>)"
    if "denied fs' = denied fs" "\<And>p. nodes fs' p = Some Dir \<Longrightarrow> nodes fs p = Some Dir" for fs'
    using assms(1) that set_delete_subset [of fid "files st"]
    by (fastforce simp: removable_def list_all_iff)
  show ?thesis
  proof (cases "nodes fs (stored_path info)")
    case None
    then have "sdfs_delete fs st fid = (fs, st\<lparr>files := AList.delete fid (files st)\<rparr>, True)"
      using assms(2) by (simp add: sdfs_delete_def path_exists_def)
    with sub [of fs] show ?thesis by simp
  next
    case (Some n)
    with ok(2) obtain c where c: "nodes fs (stored_path info) = Some (File c)" by (cases n) auto
    let ?fs = "fs\<lparr>nodes := (nodes fs)(stored_path info := None),
                   free_space := free_space fs + length c\<rparr>"
    have "sdfs_delete fs st fid = (?fs, st\<lparr>files := AList.delete fid (files st)\<rparr>, True)"
      using assms(2) c ok(1) by (simp add: sdfs_delete_def path_exists_def unlink_def)
    moreover have "removable ?fs (st\<lparr>files := AList.delete fid (files st)\<rparr>)"
      by (rule sub) (auto split: if_splits)
    ultimately show ?thesis by blast
  qed
qed

lemma delete_each_removable:
  "removable fs st \<Longrightarrow>
     files (snd (delete_each fs st ks)) = filter (\<lambda>(k, info). k \<notin> set ks) (files st)"
proof (induction ks arbitrary: fs st)
  case Nil
  then show ?case by simp
next
  case (Cons k ks)
  show ?case
  proof (cases "map_of (files st) k")
    case None
    then have "k \<notin> fst ` set (files st)" by (simp add: map_of_eq_None_iff)
    then have "filter (\<lambda>(k', info). k' \<notin> set (k # ks)) (files st)
                 = filter (\<lambda>(k', info). k' \<notin> set ks) (files st)"
      by (intro filter_cong) (auto simp: image_iff)
    with None Cons show ?thesis by (simp add: sdfs_delete_untracked)
  next
    case (Some info)
    from sdfs_delete_removable [OF Cons.prems Some] obtain fs'
      where d: "sdfs_delete fs st k = (fs', st\<lparr>files := AList.delete k (files st)\<rparr>, True)"
        and r: "removable fs' (st\<lparr>files := AList.delete k (files st)\<rparr>)" by blast
    have "filter (\<lambda>(k', info). k' \<notin> set ks) (AList.delete k (files st))
            = filter (\<lambda>(k', info). k' \<notin> set (k # ks)) (files st)"
      by (auto simp: AList.delete_eq intro: filter_cong)
    with Cons.IH [OF r] d show ?thesis by simp
  qed
qed

lemma sdfs_delete_all_removable:
  assumes "removable fs st"
  shows "snd (snd (sdfs_delete_all fs st)) = sdfs_count st"
    and "sdfs_count (fst (snd (sdfs_delete_all fs st))) = 0"
proof -
  have "files (snd (delete_each fs st (map fst (files st)))) = []"
    unfolding delete_each_removable [OF assms] by (force simp: filter_empty_conv)
  then show "snd (snd (sdfs_delete_all fs st)) = sdfs_count st"
    and "sdfs_count (fst (snd (sdfs_delete_all fs st))) = 0"
    by (auto simp: sdfs_delete_all_def sdfs_count_def Let_def split: prod.splits)
qed

text \<open>
  C2 at a file-backed store that tracks one file whose stored copy the process may not
  remove: \<^verbatim>\<open>delete\<close> fails and keeps the record, \<^verbatim>\<open>delete_all\<close> drops that result and
  returns the size it read at the start. It reports one file removed, none was, and the size
  afterwards is one.
\<close>

theorem delete_all_reports_kept_file:
  "sdfs_count report_store = 1
   \<and> sdfs_delete_all locked_fs report_store = (locked_fs, report_store, 1)
   \<and> sdfs_count (fst (snd (sdfs_delete_all locked_fs report_store))) = 1
   \<and> read_all (fst (snd (sdfs_delete_all locked_fs report_store))) = [report_info]"
  by (simp add: sdfs_delete_all_def sdfs_delete_def unlink_def path_exists_def sdfs_count_def
      read_all_def report_store_def report_info_def locked_fs_def)

section \<open>What the operations preserve\<close>



















section \<open>Deletion followed by a read\<close>











section \<open>The order of the listing\<close>

lemma subseq_distinct: "subseq xs ys \<Longrightarrow> distinct ys \<Longrightarrow> distinct xs"
  using subseqs_distinctD [of xs ys] by simp

lemma keys_update_subseq: "subseq (map fst (AList.update k v al)) (map fst al @ [k])"
  by (simp add: AList.update_keys subseq_rev_drop_many)

lemma keys_delete_subseq: "subseq (map fst (AList.delete k al)) (map fst al)"
  by (simp add: AList.delete_keys removeAll_filter_not_eq)

lemma keys_create:
  "subseq (map fst (files (fst (snd (sdfs_create fs st file_path md uuid_hex now)))))
          (map fst (files st) @ [generate_adobe_id uuid_hex])"
  by (auto simp: sdfs_create_def Let_def keys_update_subseq
      split: prod.splits option.splits sum.splits)

lemma keys_update_metadata:
  "map fst (files (fst (update_metadata st fid m now))) = map fst (files st)"
proof (cases "map_of (files st) fid")
  case None
  then show ?thesis by (simp add: update_metadata_def)
next
  case (Some info)
  then have "fid \<in> set (map fst (files st))"
    by (metis map_of_eq_None_iff option.distinct(1) set_map)
  with Some show ?thesis by (simp add: update_metadata_def AList.update_keys)
qed

lemma keys_sdfs_delete:
  "subseq (map fst (files (fst (snd (sdfs_delete fs st fid))))) (map fst (files st))"
  by (auto simp: sdfs_delete_def keys_delete_subseq split: option.splits prod.splits)

lemma keys_delete_each:
  "subseq (map fst (files (snd (delete_each fs st ks)))) (map fst (files st))"
proof (induction ks arbitrary: fs st)
  case Nil
  then show ?case by simp
next
  case (Cons k ks)
  obtain fs' st' ok where d: "sdfs_delete fs st k = (fs', st', ok)" by (cases "sdfs_delete fs st k")
  from keys_sdfs_delete [of fs st k] d have "subseq (map fst (files st')) (map fst (files st))"
    by simp
  with Cons.IH [of fs' st'] d show ?case by (auto intro: subseq_order.trans)
qed

lemma keys_step:
  "subseq (map fst (files (snd (file_step (fs, st) op)))) (map fst (files st) @ generated_ids [op])"
proof (cases op)
  case (Create file_path md uuid_hex now)
  with keys_create [of fs st file_path md uuid_hex now] show ?thesis
    by (auto split: prod.splits)
next
  case (UpdateMetadata fid m now)
  then show ?thesis by (simp add: keys_update_metadata)
next
  case (Delete fid)
  with keys_sdfs_delete [of fs st fid] show ?thesis by (auto split: prod.splits)
next
  case DeleteAll
  with keys_delete_each [of fs st "map fst (files st)"] show ?thesis
    by (auto simp: sdfs_delete_all_def Let_def split: prod.splits)
next
  case (Download fid dest_path)
  then show ?thesis by simp
qed

lemma generated_ids_Cons: "generated_ids (op # ops) = generated_ids [op] @ generated_ids ops"
  by (cases op) simp_all

lemma keys_run:
  "distinct (map fst (files st) @ generated_ids ops) \<Longrightarrow>
     subseq (map fst (files (snd (file_run (fs, st) ops)))) (map fst (files st) @ generated_ids ops)"
proof (induction ops arbitrary: fs st)
  case Nil
  then show ?case by (simp add: file_run_def)
next
  case (Cons op ops)
  obtain fs' st' where s: "file_step (fs, st) op = (fs', st')" by (cases "file_step (fs, st) op")
  from keys_step [of fs st op] s
  have k: "subseq (map fst (files st')) (map fst (files st) @ generated_ids [op])" by simp
  then have k': "subseq (map fst (files st') @ generated_ids ops)
                        (map fst (files st) @ generated_ids (op # ops))"
    unfolding generated_ids_Cons [of op ops]
    using list_emb_append_mono [OF k subseq_order.refl [of "generated_ids ops"]] by simp
  from k' Cons.prems have "distinct (map fst (files st') @ generated_ids ops)"
    by (rule subseq_distinct)
  from Cons.IH [OF this, of fs']
  have "subseq (map fst (files (snd (file_run (fs', st') ops))))
               (map fst (files st') @ generated_ids ops)" .
  from this k' have "subseq (map fst (files (snd (file_run (fs', st') ops))))
                       (map fst (files st) @ generated_ids (op # ops))"
    by (rule subseq_order.trans)
  then show ?case using s by (simp add: file_run_def)
qed


lemma generated_ids_append:
  "generated_ids (ops1 @ ops2) = generated_ids ops1 @ generated_ids ops2"
proof (induction ops1)
  case Nil
  then show ?case by simp
next
  case (Cons op ops1)
  then show ?case
    using generated_ids_Cons [of op "ops1 @ ops2"] generated_ids_Cons [of op ops1] by simp
qed









section \<open>Updates and the time stamp\<close>

lemma update_user_then_find:
  assumes wf: "wf_store s" and found: "find_by_email s k = Some r"
  shows "snd (update_user s k upd now) = 1"
    and "get_user_by_email (fst (update_user s k upd now)) k = Some (apply_update r upd now)"
proof -
  from update_by_email_listing [OF wf found, of upd now] obtain pre post
    where pre: "\<forall>x \<in> set pre. identity_email x \<noteq> k" and e: "identity_email r = k"
      and l': "find_all (fst (update_by_email s k upd now)) = pre @ apply_update r upd now # post"
      and n: "snd (update_by_email s k upd now) = 1"
    by blast
  show "snd (update_user s k upd now) = 1" using n by (simp add: update_user_def)
  have "List.find (\<lambda>record. identity_email record = k) (pre @ apply_update r upd now # post)
          = Some (apply_update r upd now)"
    using pre e by (intro find_first_match) (simp_all add: apply_update_keeps)
  then show "get_user_by_email (fst (update_user s k upd now)) k = Some (apply_update r upd now)"
    by (simp add: get_user_by_email_def find_by_email_def update_user_def l')
qed

lemma update_metadata_tracked:
  assumes "read_by_id st fid = Some info"
  shows "snd (update_metadata st fid m now)"
    and "read_by_id (fst (update_metadata st fid m now)) fid
           = Some (info\<lparr>metadata := metadata info ++ m, updated_at := Some now\<rparr>)"
  using assms by (simp_all add: update_metadata_def read_by_id_def AList.update_conv')

text \<open>A record of the store after a step was there before, or carries a reading of the step.\<close>

lemma user_step_lookup:
  "map_of (entries (user_step s op)) i = Some x \<Longrightarrow>
     map_of (entries s) i = Some x \<or> updatedAt x \<in> set (op_clock op)"
proof (cases op)
  case (CreateUser name email a ph ad uuid_hex clock)
  assume m: "map_of (entries (user_step s op)) i = Some x"
  show ?thesis
  proof (cases "snd (create_user s name email a ph ad uuid_hex clock)")
    case None
    then have "fst (create_user s name email a ph ad uuid_hex clock) = s"
      by (auto simp: create_user_def split: option.splits sum.splits)
    with m CreateUser show ?thesis by simp
  next
    case (Some rid)
    then have c: "create_user s name email a ph ad uuid_hex clock
                  = (fst (create_user s name email a ph ad uuid_hex clock), Some rid)"
      by (simp add: prod_eq_iff)
    from create_user_Some [OF c] obtain r
      where r: "create_adobe_xdm_record uuid_hex clock
               \<lparr>data_name = name, data_email = email, data_age = a,
                data_phone = (case ph of None \<Rightarrow> [] | Some p \<Rightarrow> p),
                data_address = (case ad of None \<Rightarrow> [] | Some a \<Rightarrow> a)\<rparr> = Inr r"
        and s': "fst (create_user s name email a ph ad uuid_hex clock) = hset s rid r"
      by blast
    have "updatedAt r = snd (snd clock)" using create_record_fields(10) [OF r] .
    with m CreateUser s' show ?thesis
      by (auto simp: hset_def map_of_put_field split: if_splits)
  qed
next
  case (UpdateUser email upd now)
  assume "map_of (entries (user_step s op)) i = Some x"
  with UpdateUser show ?thesis
    by (auto simp: update_user_def update_by_email_def hset_def map_of_put_field
        apply_update_keeps split: option.splits if_splits)
next
  case (DeleteUser email)
  assume "map_of (entries (user_step s op)) i = Some x"
  with DeleteUser show ?thesis
    by (auto simp: delete_user_def delete_by_email_def hdel_def AList.delete_conv'
        split: option.splits if_splits)
next
  case DeleteAllUsers
  assume "map_of (entries (user_step s op)) i = Some x"
  with DeleteAllUsers show ?thesis
    by (simp add: delete_all_users_def delete_all_def delete_key_def Let_def)
qed

lemma user_run_lookup:
  "map_of (entries (user_run s ops)) i = Some x \<Longrightarrow>
     map_of (entries s) i = Some x \<or> updatedAt x \<in> set (concat (map op_clock ops))"
proof (induction ops arbitrary: s)
  case Nil
  then show ?case by (simp add: user_run_def)
next
  case (Cons op ops)
  from Cons.prems have "map_of (entries (user_run (user_step s op) ops)) i = Some x"
    by (simp add: user_run_def)
  from Cons.IH [OF this] user_step_lookup [of s op i x] show ?case by auto
qed

lemma user_run_append: "user_run s (ops1 @ ops2) = user_run (user_run s ops1) ops2"
  by (simp add: user_run_def)

lemma updatedAt_monotone:
  assumes sorted: "sorted (concat (map op_clock (ops1 @ ops2)))"
    and start: "\<forall>x \<in> set (find_all s). \<forall>t \<in> set (concat (map op_clock (ops1 @ ops2))). updatedAt x \<le> t"
    and mid: "map_of (entries (user_run s ops1)) i = Some ra"
    and fin: "map_of (entries (user_run s (ops1 @ ops2))) i = Some rb"
  shows "updatedAt ra \<le> updatedAt rb"
proof -
  from fin have "map_of (entries (user_run (user_run s ops1) ops2)) i = Some rb"
    by (simp add: user_run_append)
  from user_run_lookup [OF this]
  consider "map_of (entries (user_run s ops1)) i = Some rb"
    | "updatedAt rb \<in> set (concat (map op_clock ops2))" by blast
  then show ?thesis
  proof cases
    case 1
    with mid show ?thesis by simp
  next
    case 2
    from user_run_lookup [OF mid]
    consider "map_of (entries s) i = Some ra"
      | "updatedAt ra \<in> set (concat (map op_clock ops1))" by blast
    then show ?thesis
    proof cases
      case 1
      then have "ra \<in> set (find_all s)"
        by (force simp: find_all_def hgetall_def dest: map_of_SomeD)
      with start 2 show ?thesis by auto
    next
      case 2
      with \<open>updatedAt rb \<in> set (concat (map op_clock ops2))\<close> sorted show ?thesis
        by (auto simp: sorted_append)
    qed
  qed
qed

text \<open>
  The same for the file-backed store: a record found after a step was there before, or was
  updated by the step, or was created by it and has no \<^verbatim>\<open>updated_at\<close>.
\<close>

lemma sdfs_delete_lookup:
  "map_of (files (fst (snd (sdfs_delete fs st fid)))) i = Some x \<Longrightarrow> map_of (files st) i = Some x"
  by (auto simp: sdfs_delete_def AList.delete_conv' split: option.splits prod.splits if_splits)

lemma delete_each_lookup:
  "map_of (files (snd (delete_each fs st ks))) i = Some x \<Longrightarrow> map_of (files st) i = Some x"
proof (induction ks arbitrary: fs st)
  case Nil
  then show ?case by simp
next
  case (Cons k ks)
  obtain fs' st' ok where d: "sdfs_delete fs st k = (fs', st', ok)" by (cases "sdfs_delete fs st k")
  with Cons.prems have "map_of (files (snd (delete_each fs' st' ks))) i = Some x" by simp
  from Cons.IH [OF this] have "map_of (files st') i = Some x" .
  with sdfs_delete_lookup [of fs st k i x] d show ?case by simp
qed

lemma file_step_lookup:
  assumes "map_of (files (snd (file_step (fs, st) op))) i = Some x"
  shows "map_of (files st) i = Some x
     \<or> (\<exists>t \<in> set (file_op_clock op). updated_at x = Some t)
     \<or> (i \<in> set (generated_ids [op]) \<and> updated_at x = None)"
proof (cases op)
  case (Create file_path md uuid_hex now)
  with assms show ?thesis
    by (auto simp: sdfs_create_def Let_def AList.update_conv'
        split: if_splits prod.splits option.splits sum.splits)
next
  case (UpdateMetadata fid m now)
  with assms show ?thesis
    by (auto simp: update_metadata_def AList.update_conv' split: option.splits if_splits)
next
  case (Delete fid)
  with assms sdfs_delete_lookup [of fs st fid i x] show ?thesis
    by (auto split: prod.splits)
next
  case DeleteAll
  with assms delete_each_lookup [of fs st "map fst (files st)" i x] show ?thesis
    by (auto simp: sdfs_delete_all_def Let_def split: prod.splits)
next
  case (Download fid dest_path)
  with assms show ?thesis by simp
qed

lemma file_run_lookup:
  "map_of (files (snd (file_run (fs, st) ops))) i = Some x \<Longrightarrow>
     map_of (files st) i = Some x
     \<or> (\<exists>t \<in> set (concat (map file_op_clock ops)). updated_at x = Some t)
     \<or> (i \<in> set (generated_ids ops) \<and> updated_at x = None)"
proof (induction ops arbitrary: fs st)
  case Nil
  then show ?case by (simp add: file_run_def)
next
  case (Cons op ops)
  obtain fs' st' where s: "file_step (fs, st) op = (fs', st')" by (cases "file_step (fs, st) op")
  with Cons.prems have "map_of (files (snd (file_run (fs', st') ops))) i = Some x"
    by (simp add: file_run_def)
  from Cons.IH [OF this]
  consider "map_of (files st') i = Some x"
    | "\<exists>t \<in> set (concat (map file_op_clock ops)). updated_at x = Some t"
    | "i \<in> set (generated_ids ops) \<and> updated_at x = None" by blast
  then show ?case
  proof cases
    case 1
    with file_step_lookup [of fs st op i x] s
    have "map_of (files st) i = Some x
     \<or> (\<exists>t \<in> set (file_op_clock op). updated_at x = Some t)
     \<or> (i \<in> set (generated_ids [op]) \<and> updated_at x = None)" by simp
    then show ?thesis using generated_ids_Cons [of op ops] by auto
  next
    case 2
    then show ?thesis by auto
  next
    case 3
    then show ?thesis using generated_ids_Cons [of op ops] by auto
  qed
qed

lemma subseq_set: "subseq xs ys \<Longrightarrow> set xs \<subseteq> set ys"
  by (induction rule: list_emb.induct) auto

lemma file_run_append: "file_run c (ops1 @ ops2) = file_run (file_run c ops1) ops2"
  by (simp add: file_run_def)

lemma updated_at_monotone:
  assumes ids: "distinct (map fst (files st0) @ generated_ids (ops1 @ ops2))"
    and sorted: "sorted (concat (map file_op_clock (ops1 @ ops2)))"
    and start: "\<forall>x \<in> set (read_all st0). \<forall>t0. updated_at x = Some t0 \<longrightarrow>
                  (\<forall>t \<in> set (concat (map file_op_clock (ops1 @ ops2))). t0 \<le> t)"
    and mid: "read_by_id (snd (file_run (fs0, st0) ops1)) i = Some ra"
    and fin: "read_by_id (snd (file_run (fs0, st0) (ops1 @ ops2))) i = Some rb"
    and ta: "updated_at ra = Some ta"
  shows "\<exists>tb. updated_at rb = Some tb \<and> ta \<le> tb"
proof -
  obtain fs1 st1 where m: "file_run (fs0, st0) ops1 = (fs1, st1)"
    by (cases "file_run (fs0, st0) ops1")
  from mid m have mid': "map_of (files st1) i = Some ra" by (simp add: read_by_id_def)
  from fin m have fin': "map_of (files (snd (file_run (fs1, st1) ops2))) i = Some rb"
    by (simp add: read_by_id_def file_run_append)
  from ids have d1: "distinct (map fst (files st0) @ generated_ids ops1)"
    by (auto simp: generated_ids_append)
  from keys_run [OF d1, of fs0] m
  have "subseq (map fst (files st1)) (map fst (files st0) @ generated_ids ops1)" by simp
  then have "set (map fst (files st1)) \<subseteq> set (map fst (files st0) @ generated_ids ops1)"
    by (rule subseq_set)
  moreover from mid' have "i \<in> set (map fst (files st1))"
    by (force dest: map_of_SomeD)
  ultimately have "i \<in> set (map fst (files st0) @ generated_ids ops1)" by blast
  with ids have notnew: "i \<notin> set (generated_ids ops2)"
    by (auto simp: generated_ids_append)
  from mid have "map_of (files (snd (file_run (fs0, st0) ops1))) i = Some ra"
    by (simp add: read_by_id_def)
  from file_run_lookup [OF this] ta
  consider "map_of (files st0) i = Some ra"
    | "ta \<in> set (concat (map file_op_clock ops1))" by auto
  then have bound: "\<forall>t \<in> set (concat (map file_op_clock ops2)). ta \<le> t"
  proof cases
    case 1
    then have "ra \<in> set (read_all st0)" by (force simp: read_all_def dest: map_of_SomeD)
    with start ta show ?thesis by auto
  next
    case 2
    with sorted show ?thesis by (auto simp: sorted_append)
  qed
  from file_run_lookup [OF fin'] notnew
  consider "map_of (files st1) i = Some rb"
    | "\<exists>t \<in> set (concat (map file_op_clock ops2)). updated_at rb = Some t" by blast
  then show ?thesis
  proof cases
    case 1
    with mid' ta show ?thesis by simp
  next
    case 2
    with bound show ?thesis by auto
  qed
qed

text \<open>
  C4, as the code has it.
  \<^item> In a Redis hash that stores every record under its own identifier, \<^verbatim>\<open>update_user\<close> with
    the email of a live record returns 1 and \<^verbatim>\<open>get_user_by_email\<close> then returns that record
    with the fields of the update: age, phone and address with the value given, of a name
    its first and last word (no other key is handled); \<^verbatim>\<open>updatedAt\<close> is the clock reading
    of the update, and so is greater than before when that reading is later than the time
    stamp the record had.
  \<^item> In the file-backed store \<^verbatim>\<open>update_metadata\<close> of a tracked file returns \<^verbatim>\<open>True\<close>, and
    \<^verbatim>\<open>read_by_id\<close> then returns the record with every field of the new metadata and with
    \<^verbatim>\<open>updated_at\<close> the clock reading.
  \<^item> Along a sequence of operations whose clock readings never go back, and are not before
    the time stamps already stored, the time stamp found under one identifier never
    decreases: \<^verbatim>\<open>updatedAt\<close> in the Redis-backed store, and in the file-backed store, where
    no identifier is generated twice, \<^verbatim>\<open>updated_at\<close> once a record has it.
\<close>

theorem update_then_read:
  "(wf_store s \<and> find_by_email s k = Some r \<longrightarrow>
       snd (update_user s k upd now) = 1
       \<and> get_user_by_email (fst (update_user s k upd now)) k = Some (apply_update r upd now)
       \<and> (\<forall>v. upd_age upd = Some v \<longrightarrow> age (apply_update r upd now) = v)
       \<and> (\<forall>v. upd_phone upd = Some v \<longrightarrow> phone (apply_update r upd now) = v)
       \<and> (\<forall>v. upd_address upd = Some v \<longrightarrow> fullAddress (apply_update r upd now) = v)
       \<and> (\<forall>v. upd_name upd = Some v \<longrightarrow>
             firstName (apply_update r upd now) = (if py_split v = [] then [] else hd (py_split v))
             \<and> lastName (apply_update r upd now)
                 = (if length (py_split v) > 1 then last (py_split v) else []))
       \<and> updatedAt (apply_update r upd now) = now
       \<and> (updatedAt r < now \<longrightarrow> updatedAt r < updatedAt (apply_update r upd now)))
   \<and> (read_by_id st fid = Some info \<longrightarrow>
       snd (update_metadata st fid m now)
       \<and> (\<exists>info'. read_by_id (fst (update_metadata st fid m now)) fid = Some info'
             \<and> (\<forall>f v. m f = Some v \<longrightarrow> metadata info' f = Some v)
             \<and> updated_at info' = Some now))
   \<and> (sorted (concat (map op_clock (ops1 @ ops2)))
        \<and> (\<forall>x \<in> set (find_all s0). \<forall>t \<in> set (concat (map op_clock (ops1 @ ops2))).
               updatedAt x \<le> t)
        \<and> map_of (entries (user_run s0 ops1)) i = Some ra
        \<and> map_of (entries (user_run s0 (ops1 @ ops2))) i = Some rb
      \<longrightarrow> updatedAt ra \<le> updatedAt rb)
   \<and> (distinct (map fst (files st0) @ generated_ids (fops1 @ fops2))
        \<and> sorted (concat (map file_op_clock (fops1 @ fops2)))
        \<and> (\<forall>x \<in> set (read_all st0). \<forall>t0. updated_at x = Some t0 \<longrightarrow>
               (\<forall>t \<in> set (concat (map file_op_clock (fops1 @ fops2))). t0 \<le> t))
        \<and> read_by_id (snd (file_run (fs0, st0) fops1)) j = Some fa
        \<and> read_by_id (snd (file_run (fs0, st0) (fops1 @ fops2))) j = Some fb
        \<and> updated_at fa = Some ta
      \<longrightarrow> (\<exists>tb. updated_at fb = Some tb \<and> ta \<le> tb))"
proof -
  have redis: "snd (update_user s k upd now) = 1
       \<and> get_user_by_email (fst (update_user s k upd now)) k = Some (apply_update r upd now)"
    if "wf_store s" "find_by_email s k = Some r"
    using update_user_then_find [OF that] by simp
  have fields: "(\<forall>v. upd_age upd = Some v \<longrightarrow> age (apply_update r upd now) = v)
       \<and> (\<forall>v. upd_phone upd = Some v \<longrightarrow> phone (apply_update r upd now) = v)
       \<and> (\<forall>v. upd_address upd = Some v \<longrightarrow> fullAddress (apply_update r upd now) = v)
       \<and> (\<forall>v. upd_name upd = Some v \<longrightarrow>
             firstName (apply_update r upd now) = (if py_split v = [] then [] else hd (py_split v))
             \<and> lastName (apply_update r upd now)
                 = (if length (py_split v) > 1 then last (py_split v) else []))"
    using apply_update_fields [of upd _ r now] by blast
  have stamp: "updatedAt (apply_update r upd now) = now"
    by (rule apply_update_keeps)
  have fl: "snd (update_metadata st fid m now)
       \<and> (\<exists>info'. read_by_id (fst (update_metadata st fid m now)) fid = Some info'
             \<and> (\<forall>f v. m f = Some v \<longrightarrow> metadata info' f = Some v)
             \<and> updated_at info' = Some now)"
    if "read_by_id st fid = Some info"
    using update_metadata_tracked [OF that, of m now] by (simp add: map_add_def)
  have seq: "updatedAt ra \<le> updatedAt rb"
    if "sorted (concat (map op_clock (ops1 @ ops2)))"
      "\<forall>x \<in> set (find_all s0). \<forall>t \<in> set (concat (map op_clock (ops1 @ ops2))). updatedAt x \<le> t"
      "map_of (entries (user_run s0 ops1)) i = Some ra"
      "map_of (entries (user_run s0 (ops1 @ ops2))) i = Some rb"
    using that by (rule updatedAt_monotone)
  have fseq: "\<exists>tb. updated_at fb = Some tb \<and> ta \<le> tb"
    if "distinct (map fst (files st0) @ generated_ids (fops1 @ fops2))"
      "sorted (concat (map file_op_clock (fops1 @ fops2)))"
      "\<forall>x \<in> set (read_all st0). \<forall>t0. updated_at x = Some t0 \<longrightarrow>
               (\<forall>t \<in> set (concat (map file_op_clock (fops1 @ fops2))). t0 \<le> t)"
      "read_by_id (snd (file_run (fs0, st0) fops1)) j = Some fa"
      "read_by_id (snd (file_run (fs0, st0) (fops1 @ fops2))) j = Some fb"
      "updated_at fa = Some ta"
    using that by (rule updated_at_monotone)
  from redis fields stamp fl seq fseq show ?thesis by simp
qed


text \<open>
  The theorem at the store that holds Ann, updated at clock reading 10, at the file-backed
  store with one report, at the sequence that creates Ann and then updates her, and at the
  session that uploads a file and updates its metadata twice.
\<close>

theorem update_then_read_witness:
  "wf_store one_user
   \<and> find_by_email one_user ''ann@x.com'' = Some ann
   \<and> update_user one_user ''ann@x.com'' older 10
       = (one_user\<lparr>entries := [(''adobe_01'', ann\<lparr>age := 31, updatedAt := 10\<rparr>)]\<rparr>, 1)
   \<and> get_user_by_email (fst (update_user one_user ''ann@x.com'' older 10)) ''ann@x.com''
       = Some (ann\<lparr>age := 31, updatedAt := 10\<rparr>)
   \<and> updatedAt ann = 3
   \<and> read_by_id report_store ''adobe_0a'' = Some report_info
   \<and> snd (update_metadata report_store ''adobe_0a'' [''description'' \<mapsto> ''Q3''] 10)
   \<and> map_option updated_at
        (read_by_id (fst (update_metadata report_store ''adobe_0a'' [''description'' \<mapsto> ''Q3''] 10))
           ''adobe_0a'') = Some (Some 10)
   \<and> user_run empty_hash [CreateUser ''Ann Lee'' ''ann@x.com'' 30 (Some ''555'')
                             (Some ''1 Main St'') ''01'' (1, 2, 3)] = one_user
   \<and> map_of (entries (user_run empty_hash
                ([CreateUser ''Ann Lee'' ''ann@x.com'' 30 (Some ''555'')
                    (Some ''1 Main St'') ''01'' (1, 2, 3)]
                 @ [UpdateUser ''ann@x.com'' older 10]))) ''adobe_01''
       = Some (ann\<lparr>age := 31, updatedAt := 10\<rparr>)
   \<and> updatedAt ann \<le> updatedAt (ann\<lparr>age := 31, updatedAt := 10\<rparr>)
   \<and> map_option updated_at
        (read_by_id (snd (file_run (upload_fs, empty_store)
           [Create ''in/a.txt'' None ''0a'' 1,
            UpdateMetadata ''adobe_0a'' [''description'' \<mapsto> ''first''] 2])) ''adobe_0a'')
       = Some (Some 2)
   \<and> map_option updated_at
        (read_by_id (snd (file_run (upload_fs, empty_store)
           ([Create ''in/a.txt'' None ''0a'' 1,
             UpdateMetadata ''adobe_0a'' [''description'' \<mapsto> ''first''] 2]
            @ [UpdateMetadata ''adobe_0a'' [''description'' \<mapsto> ''second''] 4]))) ''adobe_0a'')
       = Some (Some 4)"
proof -
  let ?mk = "CreateUser ''Ann Lee'' ''ann@x.com'' 30 (Some ''555'') (Some ''1 Main St'')
               ''01'' (1, 2, 3)"
  let ?up = "UpdateUser ''ann@x.com'' older 10"
  let ?ann' = "ann\<lparr>age := 31, updatedAt := 10\<rparr>"
  let ?f1 = "[Create ''in/a.txt'' None ''0a'' 1,
              UpdateMetadata ''adobe_0a'' [''description'' \<mapsto> ''first''] 2]"
  let ?f2 = "[UpdateMetadata ''adobe_0a'' [''description'' \<mapsto> ''second''] 4]"
  have w: "wf_store one_user" by (simp add: wf_store_def one_user_def ann_def)
  have f: "find_by_email one_user ''ann@x.com'' = Some ann"
    by (simp add: find_by_email_def find_all_def hgetall_def one_user_def ann_def)
  have a: "apply_update ann older 10 = ?ann'" by (simp add: apply_update_def older_def)
  have u: "update_user one_user ''ann@x.com'' older 10
             = (one_user\<lparr>entries := [(''adobe_01'', ?ann')]\<rparr>, 1)"
    by (simp add: update_user_def update_by_email_def find_all_def hgetall_def hset_def
        put_field_def apply_update_def older_def one_user_def ann_def)
  have t3: "updatedAt ann = 3" by (simp add: ann_def)
  have rd: "read_by_id report_store ''adobe_0a'' = Some report_info"
    by (simp add: read_by_id_def report_store_def)
  have c: "create_user empty_hash ''Ann Lee'' ''ann@x.com'' 30 (Some ''555'') (Some ''1 Main St'')
              ''01'' (1, 2, 3) = (one_user, Some ''adobe_01'')"
    by (simp add: create_user_def create_def create_adobe_xdm_record_def find_by_email_def
        find_all_def hgetall_def hset_def put_field_def generate_adobe_id_def py_split_def
        is_space_def empty_hash_def one_user_def ann_def)
  have r1: "user_run empty_hash [?mk] = one_user" using c by (simp add: user_run_def)
  have r2: "user_run empty_hash ([?mk] @ [?up]) = one_user\<lparr>entries := [(''adobe_01'', ?ann')]\<rparr>"
    using c u by (simp add: user_run_def)
  have srt: "sorted (concat (map op_clock ([?mk] @ [?up])))" by simp
  have st: "\<forall>x \<in> set (find_all empty_hash). \<forall>t \<in> set (concat (map op_clock ([?mk] @ [?up]))).
               updatedAt x \<le> t"
    by (simp add: find_all_def hgetall_def empty_hash_def)
  have m1: "map_of (entries (user_run empty_hash [?mk])) ''adobe_01'' = Some ann"
    unfolding r1 by (simp add: one_user_def)
  have m2: "map_of (entries (user_run empty_hash ([?mk] @ [?up]))) ''adobe_01'' = Some ?ann'"
    unfolding r2 by simp
  have e1: "map_option updated_at
        (read_by_id (snd (file_run (upload_fs, empty_store) ?f1)) ''adobe_0a'') = Some (Some 2)"
    by (simp add: file_run_def sdfs_create_def copy2_def stat_size_def path_exists_def
        path_name_def generate_adobe_id_def update_metadata_def read_by_id_def upload_fs_def
        empty_store_def Let_def)
  have e2: "map_option updated_at
        (read_by_id (snd (file_run (upload_fs, empty_store) (?f1 @ ?f2))) ''adobe_0a'')
          = Some (Some 4)"
    by (simp add: file_run_def sdfs_create_def copy2_def stat_size_def path_exists_def
        path_name_def generate_adobe_id_def update_metadata_def read_by_id_def upload_fs_def
        empty_store_def Let_def)
  from e1 obtain fa where fa: "read_by_id (snd (file_run (upload_fs, empty_store) ?f1)) ''adobe_0a''
      = Some fa" "updated_at fa = Some 2" by auto
  from e2 obtain fb where fb: "read_by_id (snd (file_run (upload_fs, empty_store) (?f1 @ ?f2)))
      ''adobe_0a'' = Some fb" "updated_at fb = Some 4" by auto
  have ids: "distinct (map fst (files empty_store) @ generated_ids (?f1 @ ?f2))"
    by (simp add: empty_store_def)
  have fsrt: "sorted (concat (map file_op_clock (?f1 @ ?f2)))" by simp
  have fst0: "\<forall>x \<in> set (read_all empty_store). \<forall>t0. updated_at x = Some t0 \<longrightarrow>
               (\<forall>t \<in> set (concat (map file_op_clock (?f1 @ ?f2))). t0 \<le> t)"
    by (simp add: read_all_def empty_store_def)
  note t = update_then_read [where s = one_user and k = "''ann@x.com''" and r = ann
      and upd = older and now = 10 and st = report_store and fid = "''adobe_0a''"
      and info = report_info and m = "[''description'' \<mapsto> ''Q3'']"
      and ?ops1.0 = "[?mk]" and ?ops2.0 = "[?up]" and ?s0.0 = empty_hash
      and i = "''adobe_01''" and ra = ann and rb = ?ann'
      and ?st0.0 = empty_store and ?fops1.0 = ?f1 and ?fops2.0 = ?f2 and ?fs0.0 = upload_fs
      and j = "''adobe_0a''" and fa = fa and fb = fb and ta = 2]
  from t w f a have g: "get_user_by_email (fst (update_user one_user ''ann@x.com'' older 10))
      ''ann@x.com'' = Some ?ann'" by simp
  from t rd have md: "snd (update_metadata report_store ''adobe_0a'' [''description'' \<mapsto> ''Q3''] 10)"
    and "\<exists>info'. read_by_id (fst (update_metadata report_store ''adobe_0a''
                      [''description'' \<mapsto> ''Q3''] 10)) ''adobe_0a'' = Some info'
                    \<and> updated_at info' = Some 10" by blast+
  then have ua: "map_option updated_at
        (read_by_id (fst (update_metadata report_store ''adobe_0a'' [''description'' \<mapsto> ''Q3''] 10))
           ''adobe_0a'') = Some (Some 10)" by auto
  from t srt st m1 m2 have mono: "updatedAt ann \<le> updatedAt ?ann'" by blast
  from t ids fsrt fst0 fa fb have "\<exists>tb. updated_at fb = Some tb \<and> (2::nat) \<le> tb" by blast
  from w f u g t3 rd md ua r1 m2 mono e1 e2 show ?thesis by blast
qed

text \<open>
  The time stamp is whatever the clock reads. Ann's record carries 3; an update at a clock
  reading of 2 (a clock set back, or another host writing to the same hash) succeeds and
  is read back with the new age and the time stamp 2, which is less than before. A field is
  not always read back as given: an update of the name to ``Ann Marie Smith'' succeeds and is
  read back as ``Ann'' and ``Smith'', shown as ``Ann Smith''; an update of the email succeeds
  and leaves the email as it was. In the file-backed store a record has no \<^verbatim>\<open>updated_at\<close>
  when it is created, and loses the one it has when its identifier is generated again.
\<close>

theorem update_read_back_differs:
  "find_by_email one_user ''ann@x.com'' = Some ann
   \<and> updatedAt ann = 3
   \<and> update_user one_user ''ann@x.com'' older 2
       = (one_user\<lparr>entries := [(''adobe_01'', ann\<lparr>age := 31, updatedAt := 2\<rparr>)]\<rparr>, 1)
   \<and> get_user_by_email (one_user\<lparr>entries := [(''adobe_01'', ann\<lparr>age := 31, updatedAt := 2\<rparr>)]\<rparr>)
        ''ann@x.com''
       = Some (ann\<lparr>age := 31, updatedAt := 2\<rparr>)
   \<and> updatedAt (ann\<lparr>age := 31, updatedAt := 2\<rparr>) = 2
   \<and> upd_name renamed = Some ''Ann Marie Smith''
   \<and> update_user one_user ''ann@x.com'' renamed 10
       = (one_user\<lparr>entries := [(''adobe_01'',
            ann\<lparr>firstName := ''Ann'', lastName := ''Smith'', updatedAt := 10\<rparr>)]\<rparr>, 1)
   \<and> get_user_by_email
         (one_user\<lparr>entries := [(''adobe_01'',
            ann\<lparr>firstName := ''Ann'', lastName := ''Smith'', updatedAt := 10\<rparr>)]\<rparr>)
         ''ann@x.com''
       = Some (ann\<lparr>firstName := ''Ann'', lastName := ''Smith'', updatedAt := 10\<rparr>)
   \<and> full_name (ann\<lparr>firstName := ''Ann'', lastName := ''Smith'', updatedAt := 10\<rparr>)
       = ''Ann Smith''
   \<and> upd_email new_email = Some ''new@x.com''
   \<and> update_user one_user ''ann@x.com'' new_email 10
       = (one_user\<lparr>entries := [(''adobe_01'', ann\<lparr>updatedAt := 10\<rparr>)]\<rparr>, 1)
   \<and> identity_email (ann\<lparr>updatedAt := 10\<rparr>) = ''ann@x.com''
   \<and> map_option updated_at
        (read_by_id (snd (file_run (upload_fs, empty_store)
           [Create ''in/a.txt'' None ''0a'' 1])) ''adobe_0a'')
       = Some None
   \<and> map_option updated_at
        (read_by_id (snd (file_run (upload_fs, empty_store)
           [Create ''in/a.txt'' None ''0a'' 1,
            UpdateMetadata ''adobe_0a'' [''description'' \<mapsto> ''first''] 2])) ''adobe_0a'')
       = Some (Some 2)
   \<and> map_option updated_at
        (read_by_id (snd (file_run (upload_fs, empty_store)
           [Create ''in/a.txt'' None ''0a'' 1,
            UpdateMetadata ''adobe_0a'' [''description'' \<mapsto> ''first''] 2,
            Create ''in/b.txt'' None ''0a'' 3])) ''adobe_0a'')
       = Some None"
  by (simp add: update_user_def update_by_email_def get_user_by_email_def find_by_email_def
      find_all_def hgetall_def hset_def put_field_def apply_update_def older_def renamed_def
      new_email_def one_user_def ann_def py_split_def is_space_def full_name_def py_strip_def
      file_run_def sdfs_create_def copy2_def stat_size_def path_exists_def path_name_def
      generate_adobe_id_def update_metadata_def read_by_id_def upload_fs_def empty_store_def
      Let_def)

section \<open>A creation whose copy fails\<close>

lemma sdfs_create_None:
  "snd (snd (sdfs_create fs st file_path md uuid_hex now)) = None \<Longrightarrow>
     fst (snd (sdfs_create fs st file_path md uuid_hex now)) = st"
  by (auto simp: sdfs_create_def Let_def split: if_splits prod.splits option.splits sum.splits)

lemma copy2_frame:
  "p \<noteq> dst \<Longrightarrow> p \<noteq> dst @ ''/'' @ path_name src \<Longrightarrow> nodes (fst (copy2 fs src dst)) p = nodes fs p"
  by (auto simp: copy2_def Let_def split: option.splits node.splits)

lemma sdfs_create_copy_fails:
  assumes "path_exists fs file_path"
    and "snd (copy2 fs file_path (storage_path st @ ''/'' @ generate_adobe_id uuid_hex @ ''_''
                @ path_name file_path)) = Some e"
  shows "sdfs_create fs st file_path md uuid_hex now
           = (fst (copy2 fs file_path (storage_path st @ ''/'' @ generate_adobe_id uuid_hex @ ''_''
                @ path_name file_path)), st, None)"
  using assms by (auto simp: sdfs_create_def Let_def split: prod.splits)

text \<open>
  C8, as the code has it. When the copy made by \<^verbatim>\<open>create\<close> of the file-backed store fails,
  \<^verbatim>\<open>create\<close> returns \<^verbatim>\<open>None\<close> and the store is as before: the tracked files, \<^verbatim>\<open>read_all\<close>,
  \<^verbatim>\<open>read_by_id\<close> and \<^verbatim>\<open>count\<close> are unchanged. The disk is left as the copy left it: no path
  other than the destination has changed, and what the copy wrote at the destination is not
  removed.
\<close>

theorem failed_copy_leaves_index:
  assumes "path_exists fs file_path"
    and "snd (copy2 fs file_path (storage_path st @ ''/'' @ generate_adobe_id uuid_hex @ ''_''
                @ path_name file_path)) = Some e"
  shows "snd (snd (sdfs_create fs st file_path md uuid_hex now)) = None
    \<and> fst (snd (sdfs_create fs st file_path md uuid_hex now)) = st
    \<and> read_all (fst (snd (sdfs_create fs st file_path md uuid_hex now))) = read_all st
    \<and> (\<forall>fid. read_by_id (fst (snd (sdfs_create fs st file_path md uuid_hex now))) fid
                = read_by_id st fid)
    \<and> sdfs_count (fst (snd (sdfs_create fs st file_path md uuid_hex now))) = sdfs_count st
    \<and> fst (sdfs_create fs st file_path md uuid_hex now)
        = fst (copy2 fs file_path (storage_path st @ ''/'' @ generate_adobe_id uuid_hex @ ''_''
                @ path_name file_path))
    \<and> (\<forall>p. p \<noteq> storage_path st @ ''/'' @ generate_adobe_id uuid_hex @ ''_'' @ path_name file_path
            \<and> p \<noteq> (storage_path st @ ''/'' @ generate_adobe_id uuid_hex @ ''_''
                     @ path_name file_path) @ ''/'' @ path_name file_path
          \<longrightarrow> nodes (fst (sdfs_create fs st file_path md uuid_hex now)) p = nodes fs p)"
proof -
  let ?dest = "storage_path st @ ''/'' @ generate_adobe_id uuid_hex @ ''_'' @ path_name file_path"
  have c: "sdfs_create fs st file_path md uuid_hex now = (fst (copy2 fs file_path ?dest), st, None)"
    using assms by (rule sdfs_create_copy_fails)
  have "nodes (fst (copy2 fs file_path ?dest)) p = nodes fs p"
    if "p \<noteq> ?dest" "p \<noteq> ?dest @ ''/'' @ path_name file_path" for p
    using that by (rule copy2_frame)
  with c show ?thesis by simp
qed

text \<open>
  The theorem at a disk with room for one byte, to which a report of five bytes is uploaded:
  the copy fails, the store stays empty.
\<close>

theorem failed_copy_leaves_index_witness:
  "path_exists full_fs ''in/report.txt''
   \<and> storage_path empty_store @ ''/'' @ generate_adobe_id ''0a'' @ ''_'' @ path_name ''in/report.txt''
       = ''store/adobe_0a_report.txt''
   \<and> snd (copy2 full_fs ''in/report.txt'' ''store/adobe_0a_report.txt'') = Some OSError
   \<and> snd (snd (sdfs_create full_fs empty_store ''in/report.txt'' None ''0a'' 5)) = None
   \<and> read_all (fst (snd (sdfs_create full_fs empty_store ''in/report.txt'' None ''0a'' 5))) = []
   \<and> sdfs_count (fst (snd (sdfs_create full_fs empty_store ''in/report.txt'' None ''0a'' 5))) = 0
   \<and> nodes (fst (sdfs_create full_fs empty_store ''in/report.txt'' None ''0a'' 5)) ''in/report.txt''
       = Some (File ''hello'')"
proof -
  have e: "path_exists full_fs ''in/report.txt''"
    by (simp add: path_exists_def full_fs_def)
  have d: "storage_path empty_store @ ''/'' @ generate_adobe_id ''0a'' @ ''_''
             @ path_name ''in/report.txt'' = ''store/adobe_0a_report.txt''"
    by (simp add: empty_store_def generate_adobe_id_def path_name_def)
  have f: "snd (copy2 full_fs ''in/report.txt'' ''store/adobe_0a_report.txt'') = Some OSError"
    by (simp add: copy2_def full_fs_def Let_def)
  have f': "snd (copy2 full_fs ''in/report.txt'' (storage_path empty_store @ ''/''
              @ generate_adobe_id ''0a'' @ ''_'' @ path_name ''in/report.txt'')) = Some OSError"
    unfolding d by (rule f)
  have r: "read_all empty_store = []" "sdfs_count empty_store = 0"
    by (simp_all add: read_all_def sdfs_count_def empty_store_def)
  have n: "nodes full_fs ''in/report.txt'' = Some (File ''hello'')" by (simp add: full_fs_def)
  note t = failed_copy_leaves_index [OF e f', of None 5]
  from t have "snd (snd (sdfs_create full_fs empty_store ''in/report.txt'' None ''0a'' 5)) = None"
    "fst (snd (sdfs_create full_fs empty_store ''in/report.txt'' None ''0a'' 5)) = empty_store"
    by blast+
  moreover have "nodes (fst (sdfs_create full_fs empty_store ''in/report.txt'' None ''0a'' 5))
          ''in/report.txt'' = Some (File ''hello'')"
  proof -
    have ne: "''in/report.txt'' \<noteq> storage_path empty_store @ ''/'' @ generate_adobe_id ''0a''
                @ ''_'' @ path_name ''in/report.txt''"
      unfolding d by simp
    have ne': "''in/report.txt'' \<noteq> (storage_path empty_store @ ''/'' @ generate_adobe_id ''0a''
                @ ''_'' @ path_name ''in/report.txt'') @ ''/'' @ path_name ''in/report.txt''"
      unfolding d by simp
    from t ne ne'
    have "nodes (fst (sdfs_create full_fs empty_store ''in/report.txt'' None ''0a'' 5))
            ''in/report.txt'' = nodes full_fs ''in/report.txt''"
      by blast
    with n show ?thesis by simp
  qed
  ultimately show ?thesis using e d f r by simp
qed

text \<open>
  Nothing removes what the failed copy wrote: the destination did not exist before the
  creation, and after it the destination holds the first byte of the report.
\<close>

theorem failed_copy_leaves_partial_file:
  "nodes full_fs ''store/adobe_0a_report.txt'' = None
   \<and> nodes full_fs ''in/report.txt'' = Some (File ''hello'')
   \<and> snd (snd (sdfs_create full_fs empty_store ''in/report.txt'' None ''0a'' 5)) = None
   \<and> nodes (fst (sdfs_create full_fs empty_store ''in/report.txt'' None ''0a'' 5))
        ''store/adobe_0a_report.txt'' = Some (File ''h'')"
  by (simp add: sdfs_create_def copy2_def path_exists_def path_name_def generate_adobe_id_def
      full_fs_def empty_store_def Let_def)

section \<open>A newly constructed file-backed store\<close>

lemma mkdir_keeps_files:
  "mkdir fs p = (fs', None) \<Longrightarrow> nodes fs q = Some (File c) \<Longrightarrow> nodes fs' q = Some (File c)"
  by (auto simp: mkdir_def split: option.splits node.splits if_splits)

text \<open>
  C10. A store that \<^verbatim>\<open>__init__\<close> has just constructed has \<^verbatim>\<open>count\<close> 0 and an empty
  \<^verbatim>\<open>read_all\<close>, whatever the disk holds. Every file that was on the disk is still there, and
  no identifier reaches it: \<^verbatim>\<open>read_by_id\<close> returns \<^verbatim>\<open>None\<close>, \<^verbatim>\<open>download\<close>,
  \<^verbatim>\<open>update_metadata\<close> and \<^verbatim>\<open>delete\<close> return \<^verbatim>\<open>False\<close> and leave disk and store as they are.
\<close>

theorem new_store_is_empty:
  assumes "sdfs_init fs sp = Inr (fs', st)"
  shows "sdfs_count st = 0 \<and> read_all st = []
    \<and> (\<forall>p c. nodes fs p = Some (File c) \<longrightarrow> nodes fs' p = Some (File c))
    \<and> (\<forall>fid. read_by_id st fid = None)
    \<and> (\<forall>fid dest_path. download fs' st fid dest_path = (fs', False))
    \<and> (\<forall>fid m now. update_metadata st fid m now = (st, False))
    \<and> (\<forall>fid. sdfs_delete fs' st fid = (fs', st, False))"
proof -
  from assms have m: "mkdir fs sp = (fs', None)" and e: "files st = []"
    by (auto simp: sdfs_init_def split: prod.splits option.splits)
  from m have "\<forall>p c. nodes fs p = Some (File c) \<longrightarrow> nodes fs' p = Some (File c)"
    using mkdir_keeps_files by blast
  with e show ?thesis
    by (simp add: sdfs_count_def read_all_def read_by_id_def download_def update_metadata_def
        sdfs_delete_def)
qed

text \<open>
  The theorem at a disk on which an earlier process left the stored copy of a report: the
  new store is empty, the copy is on the disk, and its old identifier is unknown.
\<close>

theorem new_store_is_empty_witness:
  "sdfs_init open_fs ''store'' = Inr (open_fs, empty_store)
   \<and> nodes open_fs ''store/adobe_0a_report.txt'' = Some (File ''hello'')
   \<and> sdfs_count empty_store = 0
   \<and> read_all empty_store = []
   \<and> read_by_id empty_store ''adobe_0a'' = None
   \<and> download open_fs empty_store ''adobe_0a'' ''out/report.txt'' = (open_fs, False)
   \<and> sdfs_delete open_fs empty_store ''adobe_0a'' = (open_fs, empty_store, False)"
proof -
  have i: "sdfs_init open_fs ''store'' = Inr (open_fs, empty_store)"
    by (simp add: sdfs_init_def mkdir_def open_fs_def empty_store_def)
  have n: "nodes open_fs ''store/adobe_0a_report.txt'' = Some (File ''hello'')"
    by (simp add: open_fs_def)
  from new_store_is_empty [OF i] n show ?thesis using i by simp
qed

end
